theory Spec2Isabelle
  imports Complex_Main
begin

section \<open>The in-memory tile cache (index.ts, class LRUCache)\<close>

text \<open>
  A tile payload is a Node \<open>Buffer\<close>: a sequence of bytes. A \<open>Buffer\<close> is an object, so
  it is truthy in every JavaScript condition, the empty one included.
\<close>

type_synonym buffer = "nat list"

text \<open>
  \<open>LRUCache\<close> keeps its entries in a JavaScript \<open>Map\<close>, whose iteration order is the
  insertion order. The model is the list of entries in that order (oldest first), with
  the four operations of \<open>Map\<close> that the class calls. \<open>Map.set\<close> on a key that is present
  overwrites the value where the entry stands; on a new key it appends.
\<close>

type_synonym jsmap = "(string \<times> buffer) list"

fun map_get :: "jsmap \<Rightarrow> string \<Rightarrow> buffer option" where
  "map_get [] k = None"
| "map_get ((k', v) # m) k = (if k' = k then Some v else map_get m k)"

definition map_has :: "jsmap \<Rightarrow> string \<Rightarrow> bool" where
  "map_has m k = (map_get m k \<noteq> None)"

fun map_delete :: "jsmap \<Rightarrow> string \<Rightarrow> jsmap" where
  "map_delete [] k = []"
| "map_delete ((k', v) # m) k = (if k' = k then m else (k', v) # map_delete m k)"

fun map_set :: "jsmap \<Rightarrow> string \<Rightarrow> buffer \<Rightarrow> jsmap" where
  "map_set [] k v = [(k, v)]"
| "map_set ((k', v') # m) k v = (if k' = k then (k, v) # m else (k', v') # map_set m k v)"

text \<open>\<open>this.cache.keys().next().value\<close>: the first key, \<open>undefined\<close> on an empty map.\<close>

fun first_key :: "jsmap \<Rightarrow> string option" where
  "first_key [] = None"
| "first_key ((k, v) # m) = Some k"

text \<open>The cache with its capacity, an integer fixed by the constructor.\<close>

record lru_cache =
  cache :: jsmap
  maxSize :: int

definition new_cache :: "int \<Rightarrow> lru_cache" where
  "new_cache n = \<lparr>cache = [], maxSize = n\<rparr>"

text \<open>\<open>get\<close> returns the value (or \<open>null\<close>) and the cache, with a hit moved to the end.\<close>

definition lru_get :: "lru_cache \<Rightarrow> string \<Rightarrow> buffer option \<times> lru_cache" where
  "lru_get c key =
     (case map_get (cache c) key of
        Some item \<Rightarrow> (Some item, c\<lparr>cache := map_set (map_delete (cache c) key) key item\<rparr>)
      | None \<Rightarrow> (None, c))"

definition lru_set :: "lru_cache \<Rightarrow> string \<Rightarrow> buffer \<Rightarrow> lru_cache" where
  "lru_set c key val =
     (let m = (if map_has (cache c) key then map_delete (cache c) key
               else if int (length (cache c)) \<ge> maxSize c then
                 (case first_key (cache c) of
                    Some firstKey \<Rightarrow> map_delete (cache c) firstKey
                  | None \<Rightarrow> cache c)
               else cache c)
      in c\<lparr>cache := map_set m key val\<rparr>)"

definition lru_has :: "lru_cache \<Rightarrow> string \<Rightarrow> bool" where
  "lru_has c key = map_has (cache c) key"

definition lru_delete :: "lru_cache \<Rightarrow> string \<Rightarrow> bool \<times> lru_cache" where
  "lru_delete c key = (map_has (cache c) key, c\<lparr>cache := map_delete (cache c) key\<rparr>)"

definition lru_clear :: "lru_cache \<Rightarrow> lru_cache" where
  "lru_clear c = c\<lparr>cache := []\<rparr>"

definition lru_size :: "lru_cache \<Rightarrow> nat" where
  "lru_size c = length (cache c)"

text \<open>A sequence of calls on one cache, for statements about every run.\<close>

datatype cache_op = Get string | Set string buffer | Delete string | Clear

fun apply_cache_op :: "lru_cache \<Rightarrow> cache_op \<Rightarrow> lru_cache" where
  "apply_cache_op c (Get k) = snd (lru_get c k)"
| "apply_cache_op c (Set k v) = lru_set c k v"
| "apply_cache_op c (Delete k) = snd (lru_delete c k)"
| "apply_cache_op c Clear = lru_clear c"

fun run_cache_ops :: "lru_cache \<Rightarrow> cache_op list \<Rightarrow> lru_cache" where
  "run_cache_ops c [] = c"
| "run_cache_ops c (x # xs) = run_cache_ops (apply_cache_op c x) xs"

text \<open>
  The class keeps no clock: recency is a property of the run of calls, defined here to
  state which entry is the least recently used. A \<open>get\<close> or a \<open>set\<close> of a key uses the
  key; \<open>last_use ops k\<close> is the position in \<open>ops\<close> (counted from 1) of the last call that
  uses \<open>k\<close>, and 0 when no call does.
\<close>

fun uses :: "cache_op \<Rightarrow> string \<Rightarrow> bool" where
  "uses (Get k') k = (k' = k)"
| "uses (Set k' v) k = (k' = k)"
| "uses (Delete k') k = False"
| "uses Clear k = False"

definition last_use :: "cache_op list \<Rightarrow> string \<Rightarrow> nat" where
  "last_use ops k = length (dropWhile (\<lambda>x. \<not> uses x k) (rev ops))"

section \<open>Tile coordinates and cache keys (index.ts \<open>cacheKey\<close>, storage.ts \<open>getTileKey\<close>)\<close>

text \<open>
  A tile coordinate is a JavaScript \<open>number\<close>. The route handler produces it with
  \<open>Number.parseInt\<close>, so a finite one is an integer; the three other values a \<open>number\<close>
  can take are \<open>NaN\<close> and the two infinities. The finite coordinates are modelled as
  \<open>int\<close>: the safe integers of JavaScript, which a template literal prints as their
  decimal digits with a leading \<open>-\<close> when negative.
\<close>

datatype jsnumber = Integer int | NotANumber | PosInfinity | NegInfinity

definition digit_char :: "nat \<Rightarrow> char" where
  "digit_char d = ''0123456789'' ! d"

fun nat_to_string :: "nat \<Rightarrow> string" where
  "nat_to_string n =
     (if n < 10 then [digit_char n] else nat_to_string (n div 10) @ [digit_char (n mod 10)])"

declare nat_to_string.simps [simp del]

fun number_to_string :: "jsnumber \<Rightarrow> string" where
  "number_to_string (Integer i) =
     (if i < 0 then CHR ''-'' # nat_to_string (nat (- i)) else nat_to_string (nat i))"
| "number_to_string NotANumber = ''NaN''"
| "number_to_string PosInfinity = ''Infinity''"
| "number_to_string NegInfinity = ''-Infinity''"

text \<open>\<open>const cacheKey = `${x}-${y}-${z}`\<close>\<close>

definition cacheKey :: "jsnumber \<Rightarrow> jsnumber \<Rightarrow> jsnumber \<Rightarrow> string" where
  "cacheKey x y z = number_to_string x @ ''-'' @ number_to_string y @ ''-'' @ number_to_string z"

text \<open>\<open>getTileKey(z, x, y, format)\<close> returns \<open>`${this.prefix}/${z}/${x}/${y}.${format}`\<close>\<close>

definition getTileKey :: "string \<Rightarrow> jsnumber \<Rightarrow> jsnumber \<Rightarrow> jsnumber \<Rightarrow> string \<Rightarrow> string" where
  "getTileKey prefix z x y format =
     prefix @ ''/'' @ number_to_string z @ ''/'' @ number_to_string x @ ''/''
       @ number_to_string y @ ''.'' @ format"

text \<open>The characters that \<open>nat_to_string\<close> produces.\<close>

definition is_digit :: "char \<Rightarrow> bool" where
  "is_digit c = (c \<in> set ''0123456789'')"

section \<open>The durable store (storage.ts)\<close>

text \<open>
  The S3 client is an external collaborator. What the code sees of it is the outcome of
  \<open>client.send\<close>: for a \<open>GetObjectCommand\<close> an error (identified by its \<open>name\<close>), a
  response without \<open>Body\<close>, or a body stream that ends with the bytes or with an error;
  for a \<open>PutObjectCommand\<close> an error or success.
\<close>

datatype s3_error = S3Error (error_name: string)

datatype get_response = NoBody | BodyStream "s3_error + buffer"

record s3_client =
  send_get :: "string \<Rightarrow> s3_error + get_response"
  send_put :: "string \<Rightarrow> buffer \<Rightarrow> s3_error option"

text \<open>
  \<open>TileStorage.getTile\<close>: \<open>Inr None\<close> is the \<open>null\<close> result, \<open>Inl\<close> a rejected promise.
  The \<open>catch\<close> turns the errors named \<open>NoSuchKey\<close> and \<open>NotFound\<close> of \<open>send\<close> into \<open>null\<close>;
  the promise that reads the stream is returned without \<open>await\<close>, so its rejection is not
  seen by that \<open>catch\<close>.
\<close>

definition storage_getTile ::
  "s3_client \<Rightarrow> string \<Rightarrow> jsnumber \<Rightarrow> jsnumber \<Rightarrow> jsnumber \<Rightarrow> string \<Rightarrow> s3_error + buffer option"
where
  "storage_getTile client prefix z x y format =
     (case send_get client (getTileKey prefix z x y format) of
        Inr NoBody \<Rightarrow> Inr None
      | Inr (BodyStream (Inr chunks)) \<Rightarrow> Inr (Some chunks)
      | Inr (BodyStream (Inl error)) \<Rightarrow> Inl error
      | Inl error \<Rightarrow>
          (if error_name error = ''NoSuchKey'' \<or> error_name error = ''NotFound''
           then Inr None else Inl error))"

text \<open>\<open>TileStorage.saveTile\<close>: \<open>None\<close> is success, \<open>Some\<close> the error of the rejected promise.\<close>

definition storage_saveTile ::
  "s3_client \<Rightarrow> string \<Rightarrow> jsnumber \<Rightarrow> jsnumber \<Rightarrow> jsnumber \<Rightarrow> buffer \<Rightarrow> string \<Rightarrow> s3_error option"
where
  "storage_saveTile client prefix z x y tileData format =
     send_put client (getTileKey prefix z x y format) tileData"

text \<open>
  \<open>s3Storage\<close> is a \<open>TileStorage\<close> (with its prefix) or the \<open>NullStorage\<close>;
  \<open>s3Enabled\<close> is \<open>s3Storage instanceof TileStorage\<close>.
\<close>

datatype storage = NullStorage | TileStorage string

section \<open>The render engine, as \<open>getTile\<close> sees it\<close>

datatype tile_state = IDLE | LOADING | LOADED | ERROR | EMPTY

text \<open>
  \<open>tile.getImage()\<close> gives nothing, an object without a \<open>toBuffer\<close> function, or a canvas
  whose \<open>toBuffer()\<close> gives the bytes.
\<close>

datatype tile_image = NoImage | NotACanvas | Canvas buffer

text \<open>
  A tile of the render layer: its state when \<open>getTile\<close> receives it, the states it reports
  at the change notifications that reach the handler before the timeout fires (in order),
  and its image.
\<close>

record tile =
  tile_state0 :: tile_state
  tile_changes :: "tile_state list"
  tile_image :: tile_image

text \<open>
  The errors of \<open>getTile\<close>: the error thrown by the conversion of an argument to a string
  in the log line (a \<open>TypeError\<close> for a symbol and for an object that has no conversion to
  a primitive, otherwise what the object's own conversion method throws), the six that it
  creates itself (invalid coordinates, a null tile, the timeout, the error state seen by
  the handler, the error state seen after the wait, unusable image data), and an error of
  the durable store.
\<close>

datatype tile_error =
    ConversionError
  | InvalidParameter
  | TileIsNull
  | TileLoadTimeout
  | TileLoadingError
  | TileFailedToLoad
  | InvalidTileData
  | DurableStoreError s3_error

text \<open>
  The promise that waits for the tile (lines 234-268): the handler runs at each change
  notification; \<open>LOADED\<close> and \<open>EMPTY\<close> resolve, \<open>ERROR\<close> rejects, \<open>IDLE\<close> and \<open>LOADING\<close> wait
  on; when no notification settles it the timeout rejects.
\<close>

fun await_load :: "tile_state list \<Rightarrow> tile_error + tile_state" where
  "await_load [] = Inl TileLoadTimeout"
| "await_load (s # ss) =
     (case s of
        LOADED \<Rightarrow> Inr s
      | EMPTY \<Rightarrow> Inr s
      | ERROR \<Rightarrow> Inl TileLoadingError
      | IDLE \<Rightarrow> await_load ss
      | LOADING \<Rightarrow> await_load ss)"

section \<open>\<open>getTile\<close> (index.ts)\<close>

text \<open>
  The arguments of \<open>getTile\<close> are JavaScript values; \<open>typeof v === "number"\<close> is \<open>JNumber\<close>.
  \<open>JObject\<close> stands for every value of another type than those named (an object, a
  function, a bigint); it carries the outcome of its conversion to a string, \<open>None\<close> when
  that conversion throws.
\<close>

datatype jsvalue =
    JUndefined
  | JNull
  | JBool bool
  | JString string
  | JNumber jsnumber
  | JSymbol
  | JObject "string option"

fun is_number :: "jsvalue \<Rightarrow> bool" where
  "is_number (JNumber n) = True"
| "is_number v = False"

text \<open>
  \<open>${v}\<close> in a template literal: the conversion of \<open>v\<close> to a string, which throws (the
  result \<open>None\<close>) for a symbol, with a \<open>TypeError\<close>, and for the objects whose conversion
  throws.
\<close>

fun template_string :: "jsvalue \<Rightarrow> string option" where
  "template_string JUndefined = Some ''undefined''"
| "template_string JNull = Some ''null''"
| "template_string (JBool b) = Some (if b then ''true'' else ''false'')"
| "template_string (JString s) = Some s"
| "template_string (JNumber n) = Some (number_to_string n)"
| "template_string JSymbol = None"
| "template_string (JObject r) = r"

text \<open>
  What a call does to the tiers is recorded as a trace: the reads and writes of the memory
  cache, the reads and writes of the durable store (with the store's key), the request to
  the render layer, and the two warnings about the durable store.
\<close>

datatype event =
    MemoryGet string
  | MemorySet string buffer
  | DurableGet string
  | DurableSave string buffer
  | OriginGetTile jsnumber jsnumber jsnumber
  | LogWarn string

record environment =
  s3Storage :: storage
  s3Client :: s3_client
  renderLayer_getTile :: "jsnumber \<Rightarrow> jsnumber \<Rightarrow> jsnumber \<Rightarrow> tile option"

type_synonym outcome = "(tile_error + buffer) \<times> lru_cache \<times> event list"

definition after :: "event list \<Rightarrow> outcome \<Rightarrow> outcome" where
  "after evs r = (case r of (res, c, tr) \<Rightarrow> (res, c, evs @ tr))"

text \<open>Step 5: the save to the durable store is started and not awaited; its failure is logged.\<close>

definition save_to_s3 :: "environment \<Rightarrow> jsnumber \<Rightarrow> jsnumber \<Rightarrow> jsnumber \<Rightarrow> buffer \<Rightarrow> event list" where
  "save_to_s3 env z x y buf =
     (case s3Storage env of
        NullStorage \<Rightarrow> []
      | TileStorage prefix \<Rightarrow>
          DurableSave (getTileKey prefix z x y ''png'') buf #
          (case storage_saveTile (s3Client env) prefix z x y buf ''png'' of
             Some error \<Rightarrow> [LogWarn ''Failed to save to S3 cache'']
           | None \<Rightarrow> []))"

text \<open>
  Steps 3 to 5 (lines 217-305): fetch from the source, fill the caches. The state read
  after the wait is the state that settled the wait (or, without a wait, the state just
  tested), so the test for \<open>ERROR\<close> at line 273 never succeeds here.
\<close>

definition fetch_from_source ::
  "environment \<Rightarrow> lru_cache \<Rightarrow> string \<Rightarrow> jsnumber \<Rightarrow> jsnumber \<Rightarrow> jsnumber \<Rightarrow> outcome"
where
  "fetch_from_source env c key x y z =
     after [OriginGetTile z x y]
       (case renderLayer_getTile env z x y of
          None \<Rightarrow> (Inl TileIsNull, c, [])
        | Some t \<Rightarrow>
            (case (if tile_state0 t \<noteq> LOADED \<and> tile_state0 t \<noteq> EMPTY
                   then await_load (tile_changes t) else Inr (tile_state0 t)) of
               Inl error \<Rightarrow> (Inl error, c, [])
             | Inr s \<Rightarrow>
                 if s = ERROR then (Inl TileFailedToLoad, c, [])
                 else
                   (case tile_image t of
                      Canvas buf \<Rightarrow>
                        (Inr buf, lru_set c key buf, MemorySet key buf # save_to_s3 env z x y buf)
                    | _ \<Rightarrow> (Inl InvalidTileData, c, []))))"

text \<open>
  \<open>getTile\<close>. Line 183 logs \<open>`getTile: ${x}, ${y}, ${z}`\<close>, which throws when one of the three
  cannot be converted to a string; then the guard of line 185 throws unless all three are
  numbers; then the tiers are tried.
\<close>

definition getTile :: "environment \<Rightarrow> lru_cache \<Rightarrow> jsvalue \<Rightarrow> jsvalue \<Rightarrow> jsvalue \<Rightarrow> outcome" where
  "getTile env c x y z =
     (if template_string x = None \<or> template_string y = None \<or> template_string z = None
      then (Inl ConversionError, c, [])
      else
        case (x, y, z) of
          (JNumber xn, JNumber yn, JNumber zn) \<Rightarrow>
            (let key = cacheKey xn yn zn in
             case lru_get c key of
               (Some lruCachedTile, c') \<Rightarrow> (Inr lruCachedTile, c', [MemoryGet key])
             | (None, c') \<Rightarrow>
                 after [MemoryGet key]
                   (case s3Storage env of
                      NullStorage \<Rightarrow> fetch_from_source env c' key xn yn zn
                    | TileStorage prefix \<Rightarrow>
                        after [DurableGet (getTileKey prefix zn xn yn ''png'')]
                          (case storage_getTile (s3Client env) prefix zn xn yn ''png'' of
                             Inr (Some s3CachedTile) \<Rightarrow>
                               (Inr s3CachedTile, lru_set c' key s3CachedTile,
                                [MemorySet key s3CachedTile])
                           | Inr None \<Rightarrow> fetch_from_source env c' key xn yn zn
                           | Inl error \<Rightarrow>
                               after [LogWarn ''Failed to load from S3 cache'']
                                 (fetch_from_source env c' key xn yn zn))))
        | _ \<Rightarrow> (Inl InvalidParameter, c, []))"

text \<open>The tiers a call consults, in the order of the trace: its lookups, not its writes.\<close>

datatype tier = Memory | Durable | Origin

fun tier_of :: "event \<Rightarrow> tier option" where
  "tier_of (MemoryGet k) = Some Memory"
| "tier_of (DurableGet k) = Some Durable"
| "tier_of (OriginGetTile z x y) = Some Origin"
| "tier_of e = None"

fun consulted :: "event list \<Rightarrow> tier list" where
  "consulted [] = []"
| "consulted (e # es) = (case tier_of e of Some t \<Rightarrow> t # consulted es | None \<Rightarrow> consulted es)"

text \<open>
  A sample environment for concrete runs: a durable store under the prefix \<open>tiles\<close> whose
  reads fail with \<open>AccessDenied\<close> and whose writes fail too, and a render layer whose tile
  is idle at first, then loading, then loaded.
\<close>

definition sample_env :: environment where
  "sample_env =
     \<lparr>s3Storage = TileStorage ''tiles'',
      s3Client = \<lparr>send_get = (\<lambda>k. Inl (S3Error ''AccessDenied'')),
                  send_put = (\<lambda>k b. Some (S3Error ''SlowDown''))\<rparr>,
      renderLayer_getTile = (\<lambda>z x y. Some \<lparr>tile_state0 = IDLE,
         tile_changes = [LOADING, LOADED], tile_image = Canvas [1, 2, 3]\<rparr>)\<rparr>"

text \<open>The same environment with other outcomes of the S3 client.\<close>

definition with_send_get :: "environment \<Rightarrow> (string \<Rightarrow> s3_error + get_response) \<Rightarrow> environment" where
  "with_send_get env f = env\<lparr>s3Client := (s3Client env)\<lparr>send_get := f\<rparr>\<rparr>"

definition with_send_put :: "environment \<Rightarrow> (string \<Rightarrow> buffer \<Rightarrow> s3_error option) \<Rightarrow> environment" where
  "with_send_put env f = env\<lparr>s3Client := (s3Client env)\<lparr>send_put := f\<rparr>\<rparr>"

definition not_found :: "string \<Rightarrow> s3_error + get_response" where
  "not_found k = Inl (S3Error ''NoSuchKey'')"

section \<open>Coordinate arrays (gcj02.ts, \<open>forEachPoint\<close>)\<close>

text \<open>
  An element of a coordinate array is a JavaScript number or \<open>undefined\<close> (the value of a
  slot that \<open>Array.from({ length })\<close> created, of a hole, and of a read outside the array).
  The finite numbers are modelled as real numbers: the arithmetic of the model is exact,
  that of the code rounds to doubles.
\<close>

datatype elem = Undefined | NaN | PInf | NInf | Num real

text \<open>\<open>a < c\<close> and \<open>a > c\<close> against a finite constant; \<open>undefined\<close> and \<open>NaN\<close> compare false.\<close>

fun js_less :: "elem \<Rightarrow> real \<Rightarrow> bool" where
  "js_less (Num a) c = (a < c)"
| "js_less NInf c = True"
| "js_less a c = False"

fun js_greater :: "elem \<Rightarrow> real \<Rightarrow> bool" where
  "js_greater (Num a) c = (a > c)"
| "js_greater PInf c = True"
| "js_greater a c = False"

fun js_neg :: "elem \<Rightarrow> elem" where
  "js_neg (Num a) = Num (- a)"
| "js_neg PInf = NInf"
| "js_neg NInf = PInf"
| "js_neg a = NaN"

fun js_add :: "elem \<Rightarrow> elem \<Rightarrow> elem" where
  "js_add (Num a) (Num b) = Num (a + b)"
| "js_add Undefined b = NaN"
| "js_add a Undefined = NaN"
| "js_add NaN b = NaN"
| "js_add a NaN = NaN"
| "js_add PInf NInf = NaN"
| "js_add NInf PInf = NaN"
| "js_add PInf b = PInf"
| "js_add NInf b = NInf"
| "js_add a PInf = PInf"
| "js_add a NInf = NInf"

definition js_sub :: "elem \<Rightarrow> elem \<Rightarrow> elem" where
  "js_sub a b = js_add a (js_neg b)"

text \<open>
  \<open>xs[i]\<close> read and written at an integer index. A read outside the array gives
  \<open>undefined\<close>; a write past the end extends the array, the slots in between being holes;
  a write at a negative index sets a property that is no element of the array.
\<close>

definition array_read :: "elem list \<Rightarrow> int \<Rightarrow> elem" where
  "array_read xs i = (if 0 \<le> i \<and> nat i < length xs then xs ! nat i else Undefined)"

definition array_write :: "elem list \<Rightarrow> int \<Rightarrow> elem \<Rightarrow> elem list" where
  "array_write xs i v =
     (if i < 0 then xs
      else if nat i < length xs then xs[nat i := v]
      else xs @ replicate (nat i - length xs) Undefined @ [v])"

text \<open>
  The transforms handed to \<open>forEachPoint\<close> in this file all read \<open>input[offset]\<close> and
  \<open>input[offset + 1]\<close> and assign \<open>output[offset]\<close> and \<open>output[offset + 1]\<close>; such a transform
  is given by the function from the two values read to the two values written. The
  arrays are the pair (input, output); when the caller passed the input array as the
  output too, a write to the output is a write to the input.
\<close>

type_synonym point_transform = "elem \<Rightarrow> elem \<Rightarrow> elem \<times> elem"

datatype output_arg = Omitted | SameAsInput | Given "elem list"

definition apply_point ::
  "point_transform \<Rightarrow> bool \<Rightarrow> elem list \<times> elem list \<Rightarrow> int \<Rightarrow> elem list \<times> elem list" where
  "apply_point transformFunc aliased arrays offset =
     (let r = transformFunc (array_read (fst arrays) offset) (array_read (fst arrays) (offset + 1));
          output = array_write (array_write (snd arrays) offset (fst r)) (offset + 1) (snd r)
      in (if aliased then output else fst arrays, output))"

text \<open>
  The \<open>for\<close> loop. With a dimension below 1 and a non-empty input it does not end: the
  result \<open>None\<close> of the model.
\<close>

partial_function (option) forEachPoint_loop ::
  "point_transform \<Rightarrow> bool \<Rightarrow> int \<Rightarrow> int \<Rightarrow> elem list \<times> elem list \<Rightarrow> int \<Rightarrow> elem list option"
where
  "forEachPoint_loop transformFunc aliased dimension len arrays offset =
     (if offset < len
      then forEachPoint_loop transformFunc aliased dimension len
             (apply_point transformFunc aliased arrays offset) (offset + dimension)
      else Some (snd arrays))"

declare forEachPoint_loop.simps [code]

text \<open>
  \<open>forEachPoint\<close> of the first definition in the file: \<open>opt_dimension || 2\<close> replaces an
  omitted dimension and the dimension 0 by 2. The dimension is an integer.
\<close>

definition initial_output :: "elem list \<Rightarrow> output_arg \<Rightarrow> int \<Rightarrow> elem list" where
  "initial_output input opt_output dimension =
     (case opt_output of
        Given output \<Rightarrow> output
      | SameAsInput \<Rightarrow> input
      | Omitted \<Rightarrow>
          if dimension \<noteq> 2 then input else replicate (length input) Undefined)"

definition forEachPoint ::
  "point_transform \<Rightarrow> elem list \<Rightarrow> output_arg \<Rightarrow> int option \<Rightarrow> elem list option" where
  "forEachPoint transformFunc input opt_output opt_dimension =
     (let len = int (length input);
          dimension = (case opt_dimension of None \<Rightarrow> 2 | Some d \<Rightarrow> if d = 0 then 2 else d)
      in forEachPoint_loop transformFunc (opt_output = SameAsInput) dimension len
           (input, initial_output input opt_output dimension) 0)"

text \<open>The second definition has \<open>opt_dimension ?? 2\<close>: only an omitted dimension becomes 2.\<close>

definition forEachPoint2 ::
  "point_transform \<Rightarrow> elem list \<Rightarrow> output_arg \<Rightarrow> int option \<Rightarrow> elem list option" where
  "forEachPoint2 func input opt_output opt_dimension =
     (let len = int (length input);
          dimension = (case opt_dimension of None \<Rightarrow> 2 | Some d \<Rightarrow> d)
      in forEachPoint_loop func (opt_output = SameAsInput) dimension len
           (input, initial_output input opt_output dimension) 0)"

section \<open>The GCJ-02 offset (gcj02.ts, first definition)\<close>

definition AXIS :: real where
  "AXIS = 6378245.0"

definition OFFSET :: real where
  "OFFSET = 0.00669342162296594323"

definition outOfChina :: "elem \<Rightarrow> elem \<Rightarrow> bool" where
  "outOfChina lon lat =
     (if js_less lon 72.004 \<or> js_greater lon 137.8347 then True
      else if js_less lat 0.8293 \<or> js_greater lat 55.8271 then True
      else False)"

definition transformLat :: "real \<Rightarrow> real \<Rightarrow> real" where
  "transformLat x y =
     (let ret = - 100.0 + 2.0 * x + 3.0 * y + 0.2 * y * y + 0.1 * x * y + 0.2 * sqrt \<bar>x\<bar>;
          ret = ret + ((20.0 * sin (6.0 * x * pi) + 20.0 * sin (2.0 * x * pi)) * 2.0) / 3.0;
          ret = ret + ((20.0 * sin (y * pi) + 40.0 * sin ((y / 3.0) * pi)) * 2.0) / 3.0;
          ret = ret + ((160.0 * sin ((y / 12.0) * pi) + 320 * sin ((y * pi) / 30.0)) * 2.0) / 3.0
      in ret)"

definition transformLon :: "real \<Rightarrow> real \<Rightarrow> real" where
  "transformLon x y =
     (let ret = 300.0 + x + 2.0 * y + 0.1 * x * x + 0.1 * x * y + 0.1 * sqrt \<bar>x\<bar>;
          ret = ret + ((20.0 * sin (6.0 * x * pi) + 20.0 * sin (2.0 * x * pi)) * 2.0) / 3.0;
          ret = ret + ((20.0 * sin (x * pi) + 40.0 * sin ((x / 3.0) * pi)) * 2.0) / 3.0;
          ret = ret + ((150.0 * sin ((x / 12.0) * pi) + 300.0 * sin ((x / 30.0) * pi)) * 2.0) / 3.0
      in ret)"

text \<open>\<open>delta\<close> returns the pair \<open>[dLon, dLat]\<close>.\<close>

definition delta :: "real \<Rightarrow> real \<Rightarrow> real \<times> real" where
  "delta wgLon wgLat =
     (let dLat = transformLat (wgLon - 105.0) (wgLat - 35.0);
          dLon = transformLon (wgLon - 105.0) (wgLat - 35.0);
          radLat = (wgLat / 180.0) * pi;
          magic = sin radLat;
          magic = 1 - OFFSET * magic * magic;
          sqrtMagic = sqrt magic;
          dLat = (dLat * 180.0) / (((AXIS * (1 - OFFSET)) / (magic * sqrtMagic)) * pi);
          dLon = (dLon * 180.0) / ((AXIS / sqrtMagic) * cos radLat * pi)
      in (dLon, dLat))"

text \<open>
  \<open>delta\<close> on array elements. It is called only where \<open>outOfChina\<close> is false: on two finite
  numbers inside the region, or with an argument that is \<open>NaN\<close> or \<open>undefined\<close>. An argument
  that is no finite number makes both results \<open>NaN\<close> (each of the two series takes the
  sine of a multiple of each argument).
\<close>

definition delta_elem :: "elem \<Rightarrow> elem \<Rightarrow> elem \<times> elem" where
  "delta_elem wgLon wgLat =
     (case (wgLon, wgLat) of
        (Num lon, Num lat) \<Rightarrow> (Num (fst (delta lon lat)), Num (snd (delta lon lat)))
      | _ \<Rightarrow> (NaN, NaN))"

definition toWGS84_point :: point_transform where
  "toWGS84_point lng lat =
     (if \<not> outOfChina lng lat
      then (let deltaD = delta_elem lng lat
            in (js_sub lng (fst deltaD), js_sub lat (snd deltaD)))
      else (lng, lat))"

definition fromWGS84_point :: point_transform where
  "fromWGS84_point lng lat =
     (if \<not> outOfChina lng lat
      then (let deltaD = delta_elem lng lat
            in (js_add lng (fst deltaD), js_add lat (snd deltaD)))
      else (lng, lat))"

definition toWGS84 :: "elem list \<Rightarrow> output_arg \<Rightarrow> int option \<Rightarrow> elem list option" where
  "toWGS84 = forEachPoint toWGS84_point"

definition fromWGS84 :: "elem list \<Rightarrow> output_arg \<Rightarrow> int option \<Rightarrow> elem list option" where
  "fromWGS84 = forEachPoint fromWGS84_point"

section \<open>The GCJ-02 offset (gcj02.ts, second definition)\<close>

definition outOfChina2 :: "elem \<Rightarrow> elem \<Rightarrow> bool" where
  "outOfChina2 lon lat =
     (js_less lon 72.004 \<or> js_greater lon 137.8347 \<or> js_less lat 0.8293 \<or> js_greater lat 55.8271)"

definition transformLat2 :: "real \<Rightarrow> real \<Rightarrow> real" where
  "transformLat2 x y =
     (let ret = - 100.0 + 2.0 * x + 3.0 * y + 0.2 * y * y + 0.1 * x * y + 0.2 * sqrt \<bar>x\<bar>;
          ret = ret + ((20.0 * sin (6.0 * x * pi) + 20.0 * sin (2.0 * x * pi)) * 2.0) / 3.0;
          ret = ret + ((20.0 * sin (y * pi) + 40.0 * sin ((y / 3.0) * pi)) * 2.0) / 3.0;
          ret = ret + ((160.0 * sin ((y / 12.0) * pi) + 320 * sin ((y * pi) / 30.0)) * 2.0) / 3.0
      in ret)"

definition transformLon2 :: "real \<Rightarrow> real \<Rightarrow> real" where
  "transformLon2 x y =
     (let ret = 300.0 + x + 2.0 * y + 0.1 * x * x + 0.1 * x * y + 0.1 * sqrt \<bar>x\<bar>;
          ret = ret + ((20.0 * sin (6.0 * x * pi) + 20.0 * sin (2.0 * x * pi)) * 2.0) / 3.0;
          ret = ret + ((20.0 * sin (x * pi) + 40.0 * sin ((x / 3.0) * pi)) * 2.0) / 3.0;
          ret = ret + ((150.0 * sin ((x / 12.0) * pi) + 300.0 * sin ((x / 30.0) * pi)) * 2.0) / 3.0
      in ret)"

definition delta2 :: "real \<Rightarrow> real \<Rightarrow> real \<times> real" where
  "delta2 wgLon wgLat =
     (let dLat = transformLat2 (wgLon - 105.0) (wgLat - 35.0);
          dLon = transformLon2 (wgLon - 105.0) (wgLat - 35.0);
          radLat = (wgLat / 180.0) * pi;
          magic = sin radLat;
          magicSquared = 1 - OFFSET * magic * magic;
          sqrtMagic = sqrt magicSquared;
          dLatResult = (dLat * 180.0) / (((AXIS * (1 - OFFSET)) / (magicSquared * sqrtMagic)) * pi);
          dLonResult = (dLon * 180.0) / ((AXIS / sqrtMagic) * cos radLat * pi)
      in (dLonResult, dLatResult))"

definition delta_elem2 :: "elem \<Rightarrow> elem \<Rightarrow> elem \<times> elem" where
  "delta_elem2 wgLon wgLat =
     (case (wgLon, wgLat) of
        (Num lon, Num lat) \<Rightarrow> (Num (fst (delta2 lon lat)), Num (snd (delta2 lon lat)))
      | _ \<Rightarrow> (NaN, NaN))"

definition toWGS84_point2 :: point_transform where
  "toWGS84_point2 lng lat =
     (if \<not> outOfChina2 lng lat
      then (let deltaD = delta_elem2 lng lat
            in (js_add lng (fst deltaD), js_add lat (snd deltaD)))
      else (lng, lat))"

definition fromWGS84_point2 :: point_transform where
  "fromWGS84_point2 lng lat =
     (if \<not> outOfChina2 lng lat
      then (let deltaD = delta_elem2 lng lat
            in (js_sub lng (fst deltaD), js_sub lat (snd deltaD)))
      else (lng, lat))"

definition toWGS84_2 :: "elem list \<Rightarrow> output_arg \<Rightarrow> int option \<Rightarrow> elem list option" where
  "toWGS84_2 = forEachPoint2 toWGS84_point2"

definition fromWGS84_2 :: "elem list \<Rightarrow> output_arg \<Rightarrow> int option \<Rightarrow> elem list option" where
  "fromWGS84_2 = forEachPoint2 fromWGS84_point2"

text \<open>\<open>fromWGS84(toWGS84(p))\<close> on the one-point array \<open>[lon, lat]\<close>, with the defaults.\<close>

definition round_trip :: "elem list \<Rightarrow> elem list option" where
  "round_trip p =
     (case toWGS84 p Omitted None of
        Some q \<Rightarrow> fromWGS84 q Omitted None
      | None \<Rightarrow> None)"

text \<open>
  The two curvature factors of \<open>delta\<close>, as functions of the latitude in degrees:
  \<open>delta\<close> multiplies the longitude series by the first and the latitude series by the
  second.
\<close>

definition magic :: "real \<Rightarrow> real" where
  "magic lat = 1 - OFFSET * sin (lat / 180 * pi) * sin (lat / 180 * pi)"

definition lon_factor :: "real \<Rightarrow> real" where
  "lon_factor lat = 180 / ((AXIS / sqrt (magic lat)) * cos (lat / 180 * pi) * pi)"

definition lat_factor :: "real \<Rightarrow> real" where
  "lat_factor lat = 180 / (((AXIS * (1 - OFFSET)) / (magic lat * sqrt (magic lat))) * pi)"

section \<open>Properties of the cache\<close>

lemma map_get_None_iff: "map_get m k = None \<longleftrightarrow> k \<notin> fst ` set m"
  by (induction m) (force+)

lemma map_delete_absent: "k \<notin> fst ` set m \<Longrightarrow> map_delete m k = m"
  by (induction m) auto

lemma map_set_absent: "k \<notin> fst ` set m \<Longrightarrow> map_set m k v = m @ [(k, v)]"
  by (induction m) auto

lemma map_delete_filter:
  "distinct (map fst m) \<Longrightarrow> map_delete m k = filter (\<lambda>e. fst e \<noteq> k) m"
proof (induction m)
  case Nil
  show ?case by simp
next
  case (Cons e m)
  obtain k' v where e: "e = (k', v)" by (cases e)
  show ?case
  proof (cases "k' = k")
    case True
    with Cons.prems e have "k \<notin> fst ` set m" by auto
    then have "filter (\<lambda>e. fst e \<noteq> k) m = m" by (auto simp: filter_id_conv)
    with True e show ?thesis by simp
  next
    case False
    with Cons e show ?thesis by simp
  qed
qed

lemma length_map_delete_le: "length (map_delete m k) \<le> length m"
  by (induction m) auto

lemma length_map_delete_present:
  "k \<in> fst ` set m \<Longrightarrow> Suc (length (map_delete m k)) = length m"
  by (induction m) (force+)

lemma length_map_set_le: "length (map_set m k v) \<le> Suc (length m)"
  by (induction m) auto

lemma length_map_set_present: "k \<in> fst ` set m \<Longrightarrow> length (map_set m k v) = length m"
  by (induction m) (force+)

lemma first_key_Some: "first_key m = Some k \<Longrightarrow> k \<in> fst ` set m"
  by (cases m) auto

lemma first_key_None: "first_key m = None \<Longrightarrow> m = []"
  by (cases m) auto

lemma lru_get_size: "length (cache (snd (lru_get c k))) \<le> length (cache c)"
proof (cases "map_get (cache c) k")
  case None
  then show ?thesis by (simp add: lru_get_def)
next
  case (Some item)
  then have "k \<in> fst ` set (cache c)"
    using map_get_None_iff [of "cache c" k] by auto
  then have "Suc (length (map_delete (cache c) k)) = length (cache c)"
    by (rule length_map_delete_present)
  moreover have "length (map_set (map_delete (cache c) k) k item)
      \<le> Suc (length (map_delete (cache c) k))"
    by (rule length_map_set_le)
  ultimately show ?thesis using Some by (simp add: lru_get_def)
qed

lemma lru_set_size:
  assumes "1 \<le> maxSize c" and "int (length (cache c)) \<le> maxSize c"
  shows "int (length (cache (lru_set c k v))) \<le> maxSize c"
proof (cases "map_has (cache c) k")
  case True
  then have "k \<in> fst ` set (cache c)"
    using map_get_None_iff [of "cache c" k] by (auto simp: map_has_def)
  then have "Suc (length (map_delete (cache c) k)) = length (cache c)"
    by (rule length_map_delete_present)
  moreover have "length (map_set (map_delete (cache c) k) k v)
      \<le> Suc (length (map_delete (cache c) k))"
    by (rule length_map_set_le)
  ultimately show ?thesis using True assms by (simp add: lru_set_def)
next
  case absent: False
  show ?thesis
  proof (cases "int (length (cache c)) \<ge> maxSize c")
    case full: True
    with assms have "cache c \<noteq> []" by auto
    then obtain fk where fk: "first_key (cache c) = Some fk"
      by (cases "cache c") auto
    then have "Suc (length (map_delete (cache c) fk)) = length (cache c)"
      by (intro length_map_delete_present first_key_Some)
    moreover have "length (map_set (map_delete (cache c) fk) k v)
        \<le> Suc (length (map_delete (cache c) fk))"
      by (rule length_map_set_le)
    ultimately show ?thesis using absent full fk assms by (simp add: lru_set_def)
  next
    case False
    moreover have "length (map_set (cache c) k v) \<le> Suc (length (cache c))"
      by (rule length_map_set_le)
    ultimately show ?thesis using absent by (simp add: lru_set_def)
  qed
qed

lemma apply_cache_op_maxSize: "maxSize (apply_cache_op c x) = maxSize c"
  by (cases x) (auto simp: lru_get_def lru_set_def lru_delete_def lru_clear_def Let_def
      split: option.splits)

lemma apply_cache_op_size:
  assumes "1 \<le> maxSize c" and "int (length (cache c)) \<le> maxSize c"
  shows "int (length (cache (apply_cache_op c x))) \<le> maxSize c"
proof (cases x)
  case (Get k)
  with assms lru_get_size [of c k] show ?thesis by simp
next
  case (Set k v)
  with assms lru_set_size [of c k v] show ?thesis by simp
next
  case (Delete k)
  with assms length_map_delete_le [of "cache c" k] show ?thesis
    by (simp add: lru_delete_def)
next
  case Clear
  with assms show ?thesis by (simp add: lru_clear_def)
qed

lemma run_cache_ops_bounded:
  "1 \<le> maxSize c \<Longrightarrow> int (length (cache c)) \<le> maxSize c \<Longrightarrow>
     int (length (cache (run_cache_ops c xs))) \<le> maxSize c
     \<and> maxSize (run_cache_ops c xs) = maxSize c"
proof (induction xs arbitrary: c)
  case Nil
  then show ?case by simp
next
  case (Cons x xs)
  have "1 \<le> maxSize (apply_cache_op c x)"
    using Cons.prems by (simp add: apply_cache_op_maxSize)
  moreover have "int (length (cache (apply_cache_op c x))) \<le> maxSize (apply_cache_op c x)"
    using Cons.prems apply_cache_op_size [of c x] by (simp add: apply_cache_op_maxSize)
  ultimately show ?case
    using Cons.IH [of "apply_cache_op c x"] by (simp add: apply_cache_op_maxSize)
qed

text \<open>
  C10. A cache built with \<open>maxSize \<ge> 1\<close> never holds more than \<open>maxSize\<close> entries: after
  any finite sequence of \<open>get\<close>, \<open>set\<close>, \<open>delete\<close> and \<open>clear\<close> calls on the empty cache
  its size is at most \<open>maxSize\<close>. The sequence is arbitrary, so the bound holds after each
  call of a run, every prefix of a run being a run.
\<close>

theorem lru_size_bounded:
  "1 \<le> n \<Longrightarrow> int (lru_size (run_cache_ops (new_cache n) ops)) \<le> n"
  using run_cache_ops_bounded [of "new_cache n" ops]
  by (simp add: new_cache_def lru_size_def)

theorem lru_size_bounded_witness:
  "(1::int) \<le> 2 \<and>
   int (lru_size (run_cache_ops (new_cache 2)
     [Set ''a'' [1], Set ''b'' [2], Get ''a'', Set ''c'' [3], Delete ''a'', Set ''d'' [4],
      Set ''e'' [5], Clear, Set ''f'' [6]])) \<le> 2"
  using lru_size_bounded [of 2
     "[Set ''a'' [1], Set ''b'' [2], Get ''a'', Set ''c'' [3], Delete ''a'', Set ''d'' [4],
      Set ''e'' [5], Clear, Set ''f'' [6]]"]
  by simp

lemma keys_map_delete: "map fst (map_delete m k) = remove1 k (map fst m)"
  by (induction m) auto

lemma keys_map_set:
  "map fst (map_set m k v) = (if k \<in> fst ` set m then map fst m else map fst m @ [k])"
  by (induction m) (fastforce simp: image_iff)+

lemma map_delete_distinct:
  "distinct (map fst m) \<Longrightarrow> distinct (map fst (map_delete m k))"
  by (simp add: keys_map_delete)

lemma map_set_distinct:
  "distinct (map fst m) \<Longrightarrow> distinct (map fst (map_set m k v))"
  by (simp add: keys_map_set)

lemma lru_get_distinct:
  "distinct (map fst (cache c)) \<Longrightarrow> distinct (map fst (cache (snd (lru_get c k))))"
  by (simp add: lru_get_def map_set_distinct map_delete_distinct split: option.splits)

lemma lru_set_distinct:
  "distinct (map fst (cache c)) \<Longrightarrow> distinct (map fst (cache (lru_set c k v)))"
  by (simp add: lru_set_def map_set_distinct map_delete_distinct split: option.splits)

lemma apply_cache_op_distinct:
  "distinct (map fst (cache c)) \<Longrightarrow> distinct (map fst (cache (apply_cache_op c x)))"
  by (cases x)
    (simp_all add: lru_get_distinct lru_set_distinct lru_delete_def lru_clear_def
       map_delete_distinct)

lemma run_cache_ops_distinct:
  "distinct (map fst (cache c)) \<Longrightarrow> distinct (map fst (cache (run_cache_ops c xs)))"
  by (induction xs arbitrary: c) (simp_all add: apply_cache_op_distinct)

lemma map_get_append_new:
  "k \<notin> fst ` set m \<Longrightarrow> map_get (m @ [(k, v)]) k = Some v"
  by (induction m) auto

lemma lru_set_existing:
  assumes d: "distinct (map fst (cache c))" and h: "lru_has c k"
  shows "cache (lru_set c k v) = filter (\<lambda>e. fst e \<noteq> k) (cache c) @ [(k, v)]"
proof -
  have "k \<notin> fst ` set (filter (\<lambda>e. fst e \<noteq> k) (cache c))" by auto
  then have "map_set (filter (\<lambda>e. fst e \<noteq> k) (cache c)) k v
      = filter (\<lambda>e. fst e \<noteq> k) (cache c) @ [(k, v)]"
    by (rule map_set_absent)
  with d h show ?thesis
    by (simp add: lru_set_def lru_has_def map_delete_filter)
qed

lemma lru_get_hit:
  "map_get (cache c) k = Some b \<Longrightarrow>
     lru_get c k = (Some b, c\<lparr>cache := map_set (map_delete (cache c) k) k b\<rparr>)"
  by (simp add: lru_get_def)

lemma lru_get_miss: "map_get (cache c) k = None \<Longrightarrow> lru_get c k = (None, c)"
  by (simp add: lru_get_def)

lemma last_use_snoc:
  "last_use (ops @ [x]) k = (if uses x k then Suc (length ops) else last_use ops k)"
  by (simp add: last_use_def)

lemma last_use_le: "last_use ops k \<le> length ops"
  using length_dropWhile_le [of "\<lambda>x. \<not> uses x k" "rev ops"] by (simp add: last_use_def)

lemma run_cache_ops_snoc:
  "run_cache_ops c (xs @ [x]) = apply_cache_op (run_cache_ops c xs) x"
  by (induction xs arbitrary: c) simp_all

lemma lru_get_promotes:
  assumes d: "distinct (map fst (cache c))" and h: "map_get (cache c) k = Some b"
  shows "lru_get c k = (Some b, c\<lparr>cache := filter (\<lambda>e. fst e \<noteq> k) (cache c) @ [(k, b)]\<rparr>)"
proof -
  have "k \<notin> fst ` set (filter (\<lambda>e. fst e \<noteq> k) (cache c))" by auto
  then have "map_set (filter (\<lambda>e. fst e \<noteq> k) (cache c)) k b
      = filter (\<lambda>e. fst e \<noteq> k) (cache c) @ [(k, b)]"
    by (rule map_set_absent)
  with d h show ?thesis by (simp add: lru_get_def map_delete_filter)
qed

lemma lru_set_evicts_oldest:
  assumes a: "\<not> lru_has c k" and f: "maxSize c \<le> int (length (cache c))"
  shows "cache (lru_set c k v) = tl (cache c) @ [(k, v)]"
proof (cases "cache c")
  case Nil
  with a f show ?thesis by (simp add: lru_set_def lru_has_def)
next
  case (Cons e m)
  obtain k' v' where e: "e = (k', v')" by (cases e)
  from a Cons have "k \<notin> fst ` set (cache c)"
    using map_get_None_iff [of "cache c" k] by (simp add: lru_has_def map_has_def)
  with Cons have "k \<notin> fst ` set m" by auto
  then have "map_set m k v = m @ [(k, v)]" by (rule map_set_absent)
  with a f Cons e show ?thesis by (simp add: lru_set_def lru_has_def)
qed

lemma lru_set_appends:
  assumes a: "\<not> lru_has c k" and f: "int (length (cache c)) < maxSize c"
  shows "cache (lru_set c k v) = cache c @ [(k, v)]"
proof -
  from a have "k \<notin> fst ` set (cache c)"
    using map_get_None_iff [of "cache c" k] by (simp add: lru_has_def map_has_def)
  then have "map_set (cache c) k v = cache c @ [(k, v)]" by (rule map_set_absent)
  with a f show ?thesis by (simp add: lru_set_def lru_has_def)
qed


lemma order_after_use:
  assumes s: "sorted_wrt (\<lambda>a b. last_use ops a < last_use ops b) ks"
    and k: "k \<notin> set ks" and u: "\<And>a. uses x a \<longleftrightarrow> a = k"
  shows "sorted_wrt (\<lambda>a b. last_use (ops @ [x]) a < last_use (ops @ [x]) b) (ks @ [k])"
proof -
  have same: "last_use (ops @ [x]) a = last_use ops a" if "a \<in> set ks" for a
    using that k u by (auto simp: last_use_snoc)
  have new: "last_use (ops @ [x]) k = Suc (length ops)"
    using u by (simp add: last_use_snoc)
  have "sorted_wrt (\<lambda>a b. last_use (ops @ [x]) a < last_use (ops @ [x]) b) ks"
    using s by (rule sorted_wrt_mono_rel [rotated]) (simp add: same)
  moreover have "last_use (ops @ [x]) a < last_use (ops @ [x]) k" if "a \<in> set ks" for a
    using same [OF that] new last_use_le [of ops a] by simp
  ultimately show ?thesis by (simp add: sorted_wrt_append)
qed

lemma order_without_use:
  assumes s: "sorted_wrt (\<lambda>a b. last_use ops a < last_use ops b) ks"
    and u: "\<And>a. a \<in> set ks \<Longrightarrow> \<not> uses x a"
  shows "sorted_wrt (\<lambda>a b. last_use (ops @ [x]) a < last_use (ops @ [x]) b) ks"
  using s by (rule sorted_wrt_mono_rel [rotated]) (simp add: last_use_snoc u)

lemma keys_filter: "map fst (filter (\<lambda>e. fst e \<noteq> k) m) = filter (\<lambda>a. a \<noteq> k) (map fst m)"
  by (induction m) auto

lemma sorted_wrt_tl: "sorted_wrt P xs \<Longrightarrow> sorted_wrt P (tl xs)"
  by (cases xs) simp_all

lemma recency_order_step:
  assumes d: "distinct (map fst (cache c))"
    and s: "sorted_wrt (\<lambda>a b. last_use ops a < last_use ops b) (map fst (cache c))"
  shows "sorted_wrt (\<lambda>a b. last_use (ops @ [x]) a < last_use (ops @ [x]) b)
    (map fst (cache (apply_cache_op c x)))"
proof (cases x)
  case (Get k)
  show ?thesis
  proof (cases "map_get (cache c) k")
    case None
    then have "k \<notin> set (map fst (cache c))" by (simp add: map_get_None_iff)
    then have "\<And>a. a \<in> set (map fst (cache c)) \<Longrightarrow> \<not> uses x a" using Get by auto
    with s have "sorted_wrt (\<lambda>a b. last_use (ops @ [x]) a < last_use (ops @ [x]) b)
        (map fst (cache c))"
      by (rule order_without_use)
    with Get None show ?thesis by (simp add: lru_get_miss)
  next
    case (Some b)
    have "sorted_wrt (\<lambda>a b. last_use (ops @ [x]) a < last_use (ops @ [x]) b)
        (filter (\<lambda>a. a \<noteq> k) (map fst (cache c)) @ [k])"
      using s Get by (intro order_after_use sorted_wrt_filter) auto
    with Get show ?thesis by (simp add: lru_get_promotes [OF d Some] keys_filter)
  qed
next
  case (Set k v)
  show ?thesis
  proof (cases "lru_has c k")
    case True
    have "sorted_wrt (\<lambda>a b. last_use (ops @ [x]) a < last_use (ops @ [x]) b)
        (filter (\<lambda>a. a \<noteq> k) (map fst (cache c)) @ [k])"
      using s Set by (intro order_after_use sorted_wrt_filter) auto
    with Set show ?thesis by (simp add: lru_set_existing [OF d True] keys_filter)
  next
    case False
    then have k: "k \<notin> set (map fst (cache c))"
      using map_get_None_iff [of "cache c" k] by (simp add: lru_has_def map_has_def)
    show ?thesis
    proof (cases "maxSize c \<le> int (length (cache c))")
      case True
      have "k \<notin> set (tl (map fst (cache c)))" using k by (cases "cache c") auto
      then have "sorted_wrt (\<lambda>a b. last_use (ops @ [x]) a < last_use (ops @ [x]) b)
          (tl (map fst (cache c)) @ [k])"
        using s Set by (intro order_after_use sorted_wrt_tl) auto
      with Set show ?thesis by (simp add: lru_set_evicts_oldest [OF False True] map_tl)
    next
      case nf: False
      have "sorted_wrt (\<lambda>a b. last_use (ops @ [x]) a < last_use (ops @ [x]) b)
          (map fst (cache c) @ [k])"
        using s k Set by (intro order_after_use) auto
      with Set nf show ?thesis by (simp add: lru_set_appends [OF False])
    qed
  qed
next
  case (Delete k)
  have "sorted_wrt (\<lambda>a b. last_use (ops @ [x]) a < last_use (ops @ [x]) b)
      (filter (\<lambda>a. a \<noteq> k) (map fst (cache c)))"
    using s Delete by (intro order_without_use sorted_wrt_filter) auto
  with Delete show ?thesis by (simp add: lru_delete_def map_delete_filter [OF d] keys_filter)
next
  case Clear
  then show ?thesis by (simp add: lru_clear_def)
qed

lemma recency_order:
  "sorted_wrt (\<lambda>a b. last_use ops a < last_use ops b)
     (map fst (cache (run_cache_ops (new_cache n) ops)))"
proof (induction ops rule: rev_induct)
  case Nil
  show ?case by (simp add: new_cache_def)
next
  case (snoc x ops)
  have "distinct (map fst (cache (run_cache_ops (new_cache n) ops)))"
    by (rule run_cache_ops_distinct) (simp add: new_cache_def)
  then show ?case
    using snoc by (simp only: run_cache_ops_snoc recency_order_step)
qed


lemma run_cache_ops_maxSize: "maxSize (run_cache_ops c xs) = maxSize c"
  by (induction xs arbitrary: c) (simp_all add: apply_cache_op_maxSize)

lemma sorted_wrt_hd_tl: "sorted_wrt P xs \<Longrightarrow> a \<in> set (tl xs) \<Longrightarrow> P (hd xs) a"
  by (cases xs) auto

lemma oldest_is_least_recent:
  assumes s: "sorted_wrt (\<lambda>a b. last_use ops a < last_use ops b) (map fst m)"
    and a: "a \<in> set (map fst (tl m))"
  shows "last_use ops (fst (hd m)) < last_use ops a"
proof (cases m)
  case Nil
  with a show ?thesis by simp
next
  case (Cons e m')
  with s a show ?thesis by auto
qed

text \<open>
  C4. Eviction removes the least recently used entry and \<open>get\<close> promotes. First the run
  of the specification: on an empty cache of capacity 2, after
  \<open>set(a,1); set(b,2); get(a); set(c,3)\<close> the entry \<open>b\<close> is gone, \<open>a\<close> is still there with
  value 1 and \<open>c\<close> has value 3. Then, for every capacity \<open>n\<close>, every run \<open>ops\<close> of calls
  on the empty cache, every key and every value, with \<open>c\<close> the cache after the run:

    \<^item> the entries of \<open>c\<close> stand in the order of their last use, the least recently used
      first and the most recently used last;
    \<^item> \<open>get\<close> of a key that is present returns its value and moves the entry to the end
      (most recently used), every other entry keeping its place in the order;
    \<^item> \<open>get\<close> of a key that is absent returns \<open>null\<close> and leaves the cache as it is;
    \<^item> \<open>set\<close> on a key that is present keeps every other entry in its order, puts the
      key last with the new value, and leaves the size as it was: nothing is evicted;
    \<^item> \<open>set\<close> of a new key on a cache at capacity removes the first entry and no other,
      and appends the new entry; the last use of the removed entry is strictly older
      than the last use of every entry that stays;
    \<^item> \<open>set\<close> of a new key on a cache below capacity appends the entry and removes
      nothing.
\<close>

theorem lru_evicts_least_recently_used:
  "(let c2 = lru_set (lru_set (new_cache 2) ''a'' [1]) ''b'' [2];
        c4 = lru_set (snd (lru_get c2 ''a'')) ''c'' [3]
    in fst (lru_get c2 ''a'') = Some [1]
       \<and> \<not> lru_has c4 ''b'' \<and> lru_has c4 ''a''
       \<and> fst (lru_get c4 ''a'') = Some [1] \<and> fst (lru_get c4 ''c'') = Some [3]
       \<and> fst (lru_get (snd (lru_get c4 ''a'')) ''c'') = Some [3])
   \<and> (\<forall>n ops k v. let c = run_cache_ops (new_cache n) ops in
         sorted_wrt (\<lambda>a b. last_use ops a < last_use ops b) (map fst (cache c))
         \<and> (\<forall>b. map_get (cache c) k = Some b \<longrightarrow>
               lru_get c k
                 = (Some b, c\<lparr>cache := filter (\<lambda>e. fst e \<noteq> k) (cache c) @ [(k, b)]\<rparr>))
         \<and> (map_get (cache c) k = None \<longrightarrow> lru_get c k = (None, c))
         \<and> (lru_has c k \<longrightarrow>
               cache (lru_set c k v) = filter (\<lambda>e. fst e \<noteq> k) (cache c) @ [(k, v)]
               \<and> lru_size (lru_set c k v) = lru_size c
               \<and> fst (lru_get (lru_set c k v) k) = Some v)
         \<and> (\<not> lru_has c k \<and> n \<le> int (lru_size c) \<longrightarrow>
               cache (lru_set c k v) = tl (cache c) @ [(k, v)]
               \<and> (\<forall>a\<in>set (map fst (tl (cache c))).
                     last_use ops (fst (hd (cache c))) < last_use ops a))
         \<and> (\<not> lru_has c k \<and> int (lru_size c) < n \<longrightarrow>
               cache (lru_set c k v) = cache c @ [(k, v)]))"
proof (intro conjI allI)
  show "let c2 = lru_set (lru_set (new_cache 2) ''a'' [1]) ''b'' [2];
        c4 = lru_set (snd (lru_get c2 ''a'')) ''c'' [3]
    in fst (lru_get c2 ''a'') = Some [1]
       \<and> \<not> lru_has c4 ''b'' \<and> lru_has c4 ''a''
       \<and> fst (lru_get c4 ''a'') = Some [1] \<and> fst (lru_get c4 ''c'') = Some [3]
       \<and> fst (lru_get (snd (lru_get c4 ''a'')) ''c'') = Some [3]"
    by (simp add: lru_set_def lru_get_def lru_has_def new_cache_def map_has_def)
next
  fix n ops k v
  define c where "c = run_cache_ops (new_cache n) ops"
  have d: "distinct (map fst (cache c))"
    unfolding c_def by (rule run_cache_ops_distinct) (simp add: new_cache_def)
  have m: "maxSize c = n"
    unfolding c_def by (simp add: run_cache_ops_maxSize new_cache_def)
  have o: "sorted_wrt (\<lambda>a b. last_use ops a < last_use ops b) (map fst (cache c))"
    unfolding c_def by (rule recency_order)
  have g1: "\<forall>b. map_get (cache c) k = Some b \<longrightarrow>
               lru_get c k
                 = (Some b, c\<lparr>cache := filter (\<lambda>e. fst e \<noteq> k) (cache c) @ [(k, b)]\<rparr>)"
    using lru_get_promotes [OF d] by blast
  have g2: "map_get (cache c) k = None \<longrightarrow> lru_get c k = (None, c)"
    by (simp add: lru_get_miss)
  have s1: "lru_has c k \<longrightarrow>
           cache (lru_set c k v) = filter (\<lambda>e. fst e \<noteq> k) (cache c) @ [(k, v)]
           \<and> lru_size (lru_set c k v) = lru_size c
           \<and> fst (lru_get (lru_set c k v) k) = Some v"
  proof
    assume h: "lru_has c k"
    have e: "cache (lru_set c k v) = filter (\<lambda>e. fst e \<noteq> k) (cache c) @ [(k, v)]"
      using d h by (rule lru_set_existing)
    have f: "length (filter (\<lambda>e. fst e \<noteq> k) (cache c)) = length (map_delete (cache c) k)"
      using d by (simp add: map_delete_filter)
    from h have "k \<in> fst ` set (cache c)"
      using map_get_None_iff [of "cache c" k] by (auto simp: lru_has_def map_has_def)
    then have "Suc (length (map_delete (cache c) k)) = length (cache c)"
      by (rule length_map_delete_present)
    with e f have s: "lru_size (lru_set c k v) = lru_size c"
      by (simp add: lru_size_def)
    have "k \<notin> fst ` set (filter (\<lambda>e. fst e \<noteq> k) (cache c))" by auto
    then have "map_get (filter (\<lambda>e. fst e \<noteq> k) (cache c) @ [(k, v)]) k = Some v"
      by (rule map_get_append_new)
    with e have "fst (lru_get (lru_set c k v) k) = Some v"
      by (simp add: lru_get_def)
    with e s show "cache (lru_set c k v) = filter (\<lambda>e. fst e \<noteq> k) (cache c) @ [(k, v)]
           \<and> lru_size (lru_set c k v) = lru_size c
           \<and> fst (lru_get (lru_set c k v) k) = Some v" by simp
  qed
  have s2: "\<not> lru_has c k \<and> n \<le> int (lru_size c) \<longrightarrow>
               cache (lru_set c k v) = tl (cache c) @ [(k, v)]
               \<and> (\<forall>a\<in>set (map fst (tl (cache c))).
                     last_use ops (fst (hd (cache c))) < last_use ops a)"
    using lru_set_evicts_oldest [of c k v] oldest_is_least_recent [OF o] m
    by (simp add: lru_size_def)
  have s3: "\<not> lru_has c k \<and> int (lru_size c) < n \<longrightarrow>
               cache (lru_set c k v) = cache c @ [(k, v)]"
    using lru_set_appends [of c k v] m by (simp add: lru_size_def)
  from o g1 g2 s1 s2 s3 have
    "sorted_wrt (\<lambda>a b. last_use ops a < last_use ops b) (map fst (cache c))
         \<and> (\<forall>b. map_get (cache c) k = Some b \<longrightarrow>
               lru_get c k
                 = (Some b, c\<lparr>cache := filter (\<lambda>e. fst e \<noteq> k) (cache c) @ [(k, b)]\<rparr>))
         \<and> (map_get (cache c) k = None \<longrightarrow> lru_get c k = (None, c))
         \<and> (lru_has c k \<longrightarrow>
               cache (lru_set c k v) = filter (\<lambda>e. fst e \<noteq> k) (cache c) @ [(k, v)]
               \<and> lru_size (lru_set c k v) = lru_size c
               \<and> fst (lru_get (lru_set c k v) k) = Some v)
         \<and> (\<not> lru_has c k \<and> n \<le> int (lru_size c) \<longrightarrow>
               cache (lru_set c k v) = tl (cache c) @ [(k, v)]
               \<and> (\<forall>a\<in>set (map fst (tl (cache c))).
                     last_use ops (fst (hd (cache c))) < last_use ops a))
         \<and> (\<not> lru_has c k \<and> int (lru_size c) < n \<longrightarrow>
               cache (lru_set c k v) = cache c @ [(k, v)])"
    by (intro conjI)
  then show "let c = run_cache_ops (new_cache n) ops in
         sorted_wrt (\<lambda>a b. last_use ops a < last_use ops b) (map fst (cache c))
         \<and> (\<forall>b. map_get (cache c) k = Some b \<longrightarrow>
               lru_get c k
                 = (Some b, c\<lparr>cache := filter (\<lambda>e. fst e \<noteq> k) (cache c) @ [(k, b)]\<rparr>))
         \<and> (map_get (cache c) k = None \<longrightarrow> lru_get c k = (None, c))
         \<and> (lru_has c k \<longrightarrow>
               cache (lru_set c k v) = filter (\<lambda>e. fst e \<noteq> k) (cache c) @ [(k, v)]
               \<and> lru_size (lru_set c k v) = lru_size c
               \<and> fst (lru_get (lru_set c k v) k) = Some v)
         \<and> (\<not> lru_has c k \<and> n \<le> int (lru_size c) \<longrightarrow>
               cache (lru_set c k v) = tl (cache c) @ [(k, v)]
               \<and> (\<forall>a\<in>set (map fst (tl (cache c))).
                     last_use ops (fst (hd (cache c))) < last_use ops a))
         \<and> (\<not> lru_has c k \<and> int (lru_size c) < n \<longrightarrow>
               cache (lru_set c k v) = cache c @ [(k, v)])"
    unfolding Let_def c_def .
qed

theorem lru_evicts_least_recently_used_witness:
  "(let ops = [Set ''a'' [1], Set ''b'' [2], Set ''c'' [3], Get ''a''];
        c = run_cache_ops (new_cache 3) ops
    in cache c = [(''b'', [2]), (''c'', [3]), (''a'', [1])]
       \<and> map (last_use ops) [''b'', ''c'', ''a''] = [2, 3, 4]
       \<and> map_get (cache c) ''b'' = Some [2]
       \<and> lru_get c ''b'' = (Some [2], c\<lparr>cache := [(''c'', [3]), (''a'', [1]), (''b'', [2])]\<rparr>)
       \<and> map_get (cache c) ''z'' = None \<and> lru_get c ''z'' = (None, c)
       \<and> lru_has c ''c''
       \<and> cache (lru_set c ''c'' [9]) = [(''b'', [2]), (''a'', [1]), (''c'', [9])]
       \<and> \<not> lru_has c ''d'' \<and> (3::int) \<le> int (lru_size c)
       \<and> cache (lru_set c ''d'' [4]) = [(''c'', [3]), (''a'', [1]), (''d'', [4])])
   \<and> (let c = run_cache_ops (new_cache 3) [Set ''a'' [1], Set ''b'' [2]]
      in \<not> lru_has c ''c'' \<and> int (lru_size c) < 3
         \<and> cache (lru_set c ''c'' [3]) = [(''a'', [1]), (''b'', [2]), (''c'', [3])])"
  using
    lru_evicts_least_recently_used [THEN conjunct2, rule_format,
      of 3 "[Set ''a'' [1], Set ''b'' [2], Set ''c'' [3], Get ''a'']" "''b''" "[0]"]
    lru_evicts_least_recently_used [THEN conjunct2, rule_format,
      of 3 "[Set ''a'' [1], Set ''b'' [2], Set ''c'' [3], Get ''a'']" "''z''" "[0]"]
    lru_evicts_least_recently_used [THEN conjunct2, rule_format,
      of 3 "[Set ''a'' [1], Set ''b'' [2], Set ''c'' [3], Get ''a'']" "''c''" "[9]"]
    lru_evicts_least_recently_used [THEN conjunct2, rule_format,
      of 3 "[Set ''a'' [1], Set ''b'' [2], Set ''c'' [3], Get ''a'']" "''d''" "[4]"]
    lru_evicts_least_recently_used [THEN conjunct2, rule_format,
      of 3 "[Set ''a'' [1], Set ''b'' [2]]" "''c''" "[3]"]
  by (simp add: lru_set_def lru_get_def lru_has_def lru_size_def new_cache_def map_has_def
      last_use_def Let_def)

section \<open>Properties of the keys\<close>

lemma cacheKey_example: "cacheKey (Integer 12) (Integer (-305)) (Integer 0) = ''12--305-0''"
  by (simp add: cacheKey_def nat_to_string.simps digit_char_def)

lemma getTileKey_example: "getTileKey ''tiles'' (Integer 3) (Integer 10) (Integer 7) ''png'' = ''tiles/3/10/7.png''"
  by (simp add: getTileKey_def nat_to_string.simps digit_char_def)

lemma digit_cases:
  "(d::nat) < 10 \<Longrightarrow>
     d = 0 \<or> d = 1 \<or> d = 2 \<or> d = 3 \<or> d = 4 \<or> d = 5 \<or> d = 6 \<or> d = 7 \<or> d = 8 \<or> d = 9"
  by arith

lemma is_digit_digit_char: "d < 10 \<Longrightarrow> is_digit (digit_char d)"
  using digit_cases [of d] by (auto simp: is_digit_def digit_char_def)

lemma digit_char_inj:
  assumes "a < 10" and "b < 10" and "digit_char a = digit_char b"
  shows "a = b"
  using digit_cases [OF assms(1)] digit_cases [OF assms(2)] assms(3)
  by (auto simp: digit_char_def)

lemma nat_to_string_not_Nil: "nat_to_string n \<noteq> []"
  by (subst nat_to_string.simps) simp

lemma nat_to_string_digits: "c \<in> set (nat_to_string n) \<Longrightarrow> is_digit c"
proof (induction n rule: nat_to_string.induct)
  case (1 n)
  show ?case
  proof (cases "n < 10")
    case True
    with "1.prems" show ?thesis
      by (subst (asm) nat_to_string.simps) (simp add: is_digit_digit_char)
  next
    case False
    with "1.prems" have "c \<in> set (nat_to_string (n div 10)) \<or> c = digit_char (n mod 10)"
      by (subst (asm) nat_to_string.simps) auto
    with False "1.IH" show ?thesis
      by (auto simp: is_digit_digit_char)
  qed
qed

lemma nat_to_string_inj: "nat_to_string m = nat_to_string n \<Longrightarrow> m = n"
proof (induction n arbitrary: m rule: nat_to_string.induct)
  case (1 n)
  show ?case
  proof (cases "n < 10")
    case n: True
    show ?thesis
    proof (cases "m < 10")
      case True
      with n "1.prems" show ?thesis
        by (simp add: nat_to_string.simps [of m] nat_to_string.simps [of n] digit_char_inj)
    next
      case False
      with n "1.prems" nat_to_string_not_Nil [of "m div 10"] show ?thesis
        by (simp add: nat_to_string.simps [of m] nat_to_string.simps [of n])
    qed
  next
    case n: False
    show ?thesis
    proof (cases "m < 10")
      case True
      with n "1.prems" nat_to_string_not_Nil [of "n div 10"] show ?thesis
        by (simp add: nat_to_string.simps [of m] nat_to_string.simps [of n])
    next
      case False
      with n "1.prems" have e: "nat_to_string (m div 10) = nat_to_string (n div 10)"
        and d: "digit_char (m mod 10) = digit_char (n mod 10)"
        by (simp_all add: nat_to_string.simps [of m] nat_to_string.simps [of n])
      from "1.IH" [OF n e] have "m div 10 = n div 10" .
      moreover from d have "m mod 10 = n mod 10"
        by (intro digit_char_inj) simp_all
      ultimately show ?thesis
        by (metis div_mult_mod_eq)
    qed
  qed
qed

lemma minus_not_digit: "\<not> is_digit CHR ''-''"
  by (simp add: is_digit_def)

lemma split_at_separator:
  "c \<notin> set xs \<Longrightarrow> c \<notin> set xs' \<Longrightarrow> xs @ c # ys = xs' @ c # ys' \<Longrightarrow> xs = xs' \<and> ys = ys'"
proof (induction xs arbitrary: xs')
  case Nil
  then show ?case by (cases xs') auto
next
  case (Cons x xs)
  then show ?case by (cases xs') auto
qed

lemma nat_to_string_split:
  assumes "nat_to_string a @ c # r = nat_to_string b @ c # r'" and "\<not> is_digit c"
  shows "a = b \<and> r = r'"
proof -
  have "c \<notin> set (nat_to_string a)" "c \<notin> set (nat_to_string b)"
    using assms(2) nat_to_string_digits by blast+
  with assms(1) have "nat_to_string a = nat_to_string b \<and> r = r'"
    by (intro split_at_separator)
  then show ?thesis by (simp add: nat_to_string_inj)
qed

lemma nat_to_string_no_minus: "nat_to_string a @ s \<noteq> CHR ''-'' # t"
proof
  assume e: "nat_to_string a @ s = CHR ''-'' # t"
  obtain d ds where "nat_to_string a = d # ds"
    using nat_to_string_not_Nil [of a] by (cases "nat_to_string a") auto
  with e have "CHR ''-'' \<in> set (nat_to_string a)" by simp
  then show False using nat_to_string_digits minus_not_digit by blast
qed

lemma integer_to_string_split:
  assumes "number_to_string (Integer a) @ c # r = number_to_string (Integer b) @ c # r'"
    and "\<not> is_digit c"
  shows "a = b \<and> r = r'"
proof (cases "a < 0"; cases "b < 0")
  assume "a < 0" "b < 0"
  with assms nat_to_string_split [of "nat (- a)" c r "nat (- b)" r'] show ?thesis by auto
next
  assume "a < 0" "\<not> b < 0"
  with assms(1) [symmetric] nat_to_string_no_minus [of "nat b" "c # r'"] show ?thesis by simp
next
  assume "\<not> a < 0" "b < 0"
  with assms(1) nat_to_string_no_minus [of "nat a" "c # r"] show ?thesis by simp
next
  assume "\<not> a < 0" "\<not> b < 0"
  with assms nat_to_string_split [of "nat a" c r "nat b" r'] show ?thesis by auto
qed

lemma integer_to_string_inj:
  "number_to_string (Integer a) = number_to_string (Integer b) \<Longrightarrow> a = b"
  using integer_to_string_split [of a "CHR ''-''" "[]" b "[]"] minus_not_digit by simp

lemma cacheKey_inj:
  assumes "cacheKey (Integer x1) (Integer y1) (Integer z1)
    = cacheKey (Integer x2) (Integer y2) (Integer z2)"
  shows "x1 = x2 \<and> y1 = y2 \<and> z1 = z2"
proof -
  from assms have e: "number_to_string (Integer x1) @ CHR ''-'' #
        (number_to_string (Integer y1) @ CHR ''-'' # number_to_string (Integer z1))
      = number_to_string (Integer x2) @ CHR ''-'' #
        (number_to_string (Integer y2) @ CHR ''-'' # number_to_string (Integer z2))"
    by (simp add: cacheKey_def del: number_to_string.simps)
  from integer_to_string_split [OF e minus_not_digit]
  have x: "x1 = x2"
    and f: "number_to_string (Integer y1) @ CHR ''-'' # number_to_string (Integer z1)
      = number_to_string (Integer y2) @ CHR ''-'' # number_to_string (Integer z2)"
    by simp_all
  from integer_to_string_split [OF f minus_not_digit]
  have "y1 = y2" and "number_to_string (Integer z1) = number_to_string (Integer z2)"
    by simp_all
  with x show ?thesis
    by (simp add: integer_to_string_inj del: number_to_string.simps)
qed

lemma getTileKey_inj:
  assumes "getTileKey prefix (Integer z1) (Integer x1) (Integer y1) format
    = getTileKey prefix (Integer z2) (Integer x2) (Integer y2) format"
  shows "x1 = x2 \<and> y1 = y2 \<and> z1 = z2"
proof -
  from assms have e: "number_to_string (Integer z1) @ CHR ''/'' #
        (number_to_string (Integer x1) @ CHR ''/'' #
          (number_to_string (Integer y1) @ CHR ''.'' # format))
      = number_to_string (Integer z2) @ CHR ''/'' #
        (number_to_string (Integer x2) @ CHR ''/'' #
          (number_to_string (Integer y2) @ CHR ''.'' # format))"
    by (simp add: getTileKey_def del: number_to_string.simps)
  have s: "\<not> is_digit CHR ''/''" and p: "\<not> is_digit CHR ''.''"
    by (simp_all add: is_digit_def)
  from integer_to_string_split [OF e s]
  have z: "z1 = z2"
    and f: "number_to_string (Integer x1) @ CHR ''/'' #
          (number_to_string (Integer y1) @ CHR ''.'' # format)
      = number_to_string (Integer x2) @ CHR ''/'' #
          (number_to_string (Integer y2) @ CHR ''.'' # format)"
    by simp_all
  from integer_to_string_split [OF f s]
  have x: "x1 = x2"
    and g: "number_to_string (Integer y1) @ CHR ''.'' # format
      = number_to_string (Integer y2) @ CHR ''.'' # format"
    by simp_all
  from integer_to_string_split [OF g p] x z
  show ?thesis by simp
qed

text \<open>
  C3. The keys are collision-free on integer triples: two triples of integers get the
  same memory-cache key \<open>x-y-z\<close> only when they are the same triple, and likewise for the
  durable-store key \<open>prefix/z/x/y.format\<close> of one store (one prefix) and one format.
\<close>

theorem tile_keys_collision_free:
  "(cacheKey (Integer x1) (Integer y1) (Integer z1) = cacheKey (Integer x2) (Integer y2) (Integer z2)
      \<longleftrightarrow> x1 = x2 \<and> y1 = y2 \<and> z1 = z2)
   \<and> (getTileKey prefix (Integer z1) (Integer x1) (Integer y1) format
        = getTileKey prefix (Integer z2) (Integer x2) (Integer y2) format
      \<longleftrightarrow> x1 = x2 \<and> y1 = y2 \<and> z1 = z2)"
  using cacheKey_inj [of x1 y1 z1 x2 y2 z2] getTileKey_inj [of prefix z1 x1 y1 format z2 x2 y2]
  by blast

theorem tile_keys_collision_free_witness:
  "cacheKey (Integer 1) (Integer (-2)) (Integer 3) \<noteq> cacheKey (Integer (-1)) (Integer 2) (Integer 3)
   \<and> getTileKey ''tiles'' (Integer 3) (Integer 1) (Integer 12) ''png''
       \<noteq> getTileKey ''tiles'' (Integer 3) (Integer 11) (Integer 2) ''png''"
  using tile_keys_collision_free
    [where ?x1.0 = 1 and ?y1.0 = "-2" and ?z1.0 = 3 and ?x2.0 = "-1" and ?y2.0 = 2 and ?z2.0 = 3]
    tile_keys_collision_free
    [where prefix = "''tiles''" and format = "''png''"
       and ?z1.0 = 3 and ?x1.0 = 1 and ?y1.0 = 12 and ?z2.0 = 3 and ?x2.0 = 11 and ?y2.0 = 2]
  by simp

section \<open>Properties of \<open>getTile\<close>\<close>

lemma getTile_memory_hit:
  "map_get (cache c) (cacheKey xn yn zn) = Some b \<Longrightarrow>
     getTile env c (JNumber xn) (JNumber yn) (JNumber zn)
       = (Inr b, snd (lru_get c (cacheKey xn yn zn)), [MemoryGet (cacheKey xn yn zn)])"
  by (simp add: getTile_def Let_def lru_get_hit)

lemma getTile_no_storage:
  "map_get (cache c) (cacheKey xn yn zn) = None \<Longrightarrow> s3Storage env = NullStorage \<Longrightarrow>
     getTile env c (JNumber xn) (JNumber yn) (JNumber zn)
       = after [MemoryGet (cacheKey xn yn zn)]
           (fetch_from_source env c (cacheKey xn yn zn) xn yn zn)"
  by (simp add: getTile_def Let_def lru_get_miss)

lemma getTile_durable_hit:
  "map_get (cache c) (cacheKey xn yn zn) = None \<Longrightarrow> s3Storage env = TileStorage p \<Longrightarrow>
   storage_getTile (s3Client env) p zn xn yn ''png'' = Inr (Some b) \<Longrightarrow>
     getTile env c (JNumber xn) (JNumber yn) (JNumber zn)
       = (Inr b, lru_set c (cacheKey xn yn zn) b,
          [MemoryGet (cacheKey xn yn zn), DurableGet (getTileKey p zn xn yn ''png''),
           MemorySet (cacheKey xn yn zn) b])"
  by (simp add: getTile_def Let_def lru_get_miss after_def)

lemma getTile_durable_miss:
  "map_get (cache c) (cacheKey xn yn zn) = None \<Longrightarrow> s3Storage env = TileStorage p \<Longrightarrow>
   storage_getTile (s3Client env) p zn xn yn ''png'' = Inr None \<Longrightarrow>
     getTile env c (JNumber xn) (JNumber yn) (JNumber zn)
       = after [MemoryGet (cacheKey xn yn zn), DurableGet (getTileKey p zn xn yn ''png'')]
           (fetch_from_source env c (cacheKey xn yn zn) xn yn zn)"
  by (simp add: getTile_def Let_def lru_get_miss after_def split: prod.splits)

lemma getTile_durable_failure:
  "map_get (cache c) (cacheKey xn yn zn) = None \<Longrightarrow> s3Storage env = TileStorage p \<Longrightarrow>
   storage_getTile (s3Client env) p zn xn yn ''png'' = Inl e \<Longrightarrow>
     getTile env c (JNumber xn) (JNumber yn) (JNumber zn)
       = after [MemoryGet (cacheKey xn yn zn), DurableGet (getTileKey p zn xn yn ''png''),
                LogWarn ''Failed to load from S3 cache'']
           (fetch_from_source env c (cacheKey xn yn zn) xn yn zn)"
  by (simp add: getTile_def Let_def lru_get_miss after_def split: prod.splits)

lemma getTile_not_numbers:
  "\<not> (is_number x \<and> is_number y \<and> is_number z) \<Longrightarrow>
     getTile env c x y z
       = (Inl (if template_string x = None \<or> template_string y = None \<or> template_string z = None
               then ConversionError else InvalidParameter), c, [])"
  by (cases x; cases y; cases z) (simp_all add: getTile_def)

lemma consulted_append: "consulted (es @ fs) = consulted es @ consulted fs"
  by (induction es) (auto split: option.splits)

lemma consulted_save_to_s3: "consulted (save_to_s3 env z x y b) = []"
  by (simp add: save_to_s3_def split: storage.splits option.splits)

lemma consulted_fetch_from_source:
  "consulted (snd (snd (fetch_from_source env c key x y z))) = [Origin]"
  by (simp add: fetch_from_source_def after_def consulted_save_to_s3
      split: option.splits sum.splits tile_image.splits)

lemma fetch_from_source_not_durable_error:
  "fst (fetch_from_source env c key x y z) \<noteq> Inl (DurableStoreError e)"
proof -
  have "await_load ss \<noteq> Inl (DurableStoreError e)" for ss
    by (induction ss) (auto split: tile_state.splits)
  then show ?thesis
    by (auto simp: fetch_from_source_def after_def
        split: option.splits sum.splits tile_image.splits)
qed

text \<open>
  C1 (as the code has it). The guard of \<open>getTile\<close> is \<open>typeof v !== "number"\<close>: a call in
  which \<open>x\<close>, \<open>y\<close> or \<open>z\<close> is not of type number fails, with the cache unchanged and no
  read or write on any tier. It fails with the invalid-parameter error of the guard when
  the three arguments can be converted to strings, and with the error of that conversion,
  thrown by the log line before the guard, when one of them cannot (a symbol, for which
  it is a \<open>TypeError\<close>, or an object whose conversion throws).
\<close>

theorem getTile_rejects_non_numbers:
  "\<not> (is_number x \<and> is_number y \<and> is_number z) \<Longrightarrow>
     getTile env c x y z
       = (Inl (if template_string x = None \<or> template_string y = None \<or> template_string z = None
               then ConversionError else InvalidParameter), c, [])"
  by (rule getTile_not_numbers)

theorem getTile_rejects_non_numbers_witness:
  "\<not> (is_number (JNumber (Integer 1)) \<and> is_number (JNumber (Integer 2)) \<and> is_number (JString ''3''))
   \<and> getTile sample_env (lru_set (new_cache 2) ''1-2-3'' [7])
        (JNumber (Integer 1)) (JNumber (Integer 2)) (JString ''3'')
      = (Inl InvalidParameter, lru_set (new_cache 2) ''1-2-3'' [7], [])
   \<and> \<not> (is_number (JNumber (Integer 1)) \<and> is_number JSymbol \<and> is_number (JNumber (Integer 3)))
   \<and> getTile sample_env (lru_set (new_cache 2) ''1-2-3'' [7])
        (JNumber (Integer 1)) JSymbol (JNumber (Integer 3))
      = (Inl ConversionError, lru_set (new_cache 2) ''1-2-3'' [7], [])"
  using getTile_rejects_non_numbers
    [of "JNumber (Integer 1)" "JNumber (Integer 2)" "JString ''3''" sample_env
        "lru_set (new_cache 2) ''1-2-3'' [7]"]
    getTile_rejects_non_numbers
    [of "JNumber (Integer 1)" JSymbol "JNumber (Integer 3)" sample_env
        "lru_set (new_cache 2) ''1-2-3'' [7]"]
  by simp

text \<open>
  \<open>NaN\<close> is of type number, so it passes the guard: the call reads the memory cache under
  the key \<open>NaN-0-0\<close>, asks the render layer, and fails with another error.
\<close>

theorem getTile_NaN_counterexample:
  "getTile
     \<lparr>s3Storage = NullStorage,
      s3Client = \<lparr>send_get = (\<lambda>k. Inr NoBody), send_put = (\<lambda>k b. None)\<rparr>,
      renderLayer_getTile = (\<lambda>z x y. None)\<rparr>
     (new_cache 2) (JNumber NotANumber) (JNumber (Integer 0)) (JNumber (Integer 0))
   = (Inl TileIsNull, new_cache 2,
      [MemoryGet ''NaN-0-0'', OriginGetTile (Integer 0) NotANumber (Integer 0)])"
  by (simp add: getTile_def Let_def cacheKey_def lru_get_def new_cache_def
      fetch_from_source_def after_def nat_to_string.simps digit_char_def)

lemma consulted_after_fetch:
  "consulted (snd (snd (after evs (fetch_from_source env c key x y z)))) = consulted evs @ [Origin]"
  using consulted_fetch_from_source [of env c key x y z]
  by (cases "fetch_from_source env c key x y z") (simp add: after_def consulted_append)

lemma getTile_consulted:
  "consulted (snd (snd (getTile env c x y z)))
     \<in> {[], [Memory], [Memory, Durable], [Memory, Origin], [Memory, Durable, Origin]}"
proof (cases "is_number x \<and> is_number y \<and> is_number z")
  case False
  then show ?thesis by (simp add: getTile_not_numbers)
next
  case True
  then obtain xn yn zn where n: "x = JNumber xn" "y = JNumber yn" "z = JNumber zn"
    by (cases x; cases y; cases z) auto
  show ?thesis
  proof (cases "map_get (cache c) (cacheKey xn yn zn)")
    case (Some b)
    with n show ?thesis by (simp add: getTile_memory_hit)
  next
    case miss: None
    show ?thesis
    proof (cases "s3Storage env")
      case NullStorage
      with n miss show ?thesis
        by (simp add: getTile_no_storage consulted_after_fetch)
    next
      case (TileStorage p)
      show ?thesis
      proof (cases "storage_getTile (s3Client env) p zn xn yn ''png''")
        case (Inl e)
        with n miss TileStorage show ?thesis
          by (simp add: getTile_durable_failure consulted_after_fetch)
      next
        case (Inr r)
        with n miss TileStorage show ?thesis
          by (cases r) (simp_all add: getTile_durable_hit getTile_durable_miss consulted_after_fetch)
      qed
    qed
  qed
qed

text \<open>
  C5. Within one call the tiers are consulted in the order memory, durable, origin, each
  at most once; a call whose key is in the memory cache returns the cached bytes and
  consults nothing but the memory cache; and a call that misses the memory cache and finds
  the tile in the durable store returns those bytes without asking the render layer.
\<close>

theorem getTile_tier_order:
  "consulted (snd (snd (getTile env c x y z)))
     \<in> {[], [Memory], [Memory, Durable], [Memory, Origin], [Memory, Durable, Origin]}
   \<and> (\<forall>xn yn zn b.
        x = JNumber xn \<and> y = JNumber yn \<and> z = JNumber zn
        \<and> map_get (cache c) (cacheKey xn yn zn) = Some b \<longrightarrow>
          fst (getTile env c x y z) = Inr b
          \<and> snd (snd (getTile env c x y z)) = [MemoryGet (cacheKey xn yn zn)])
   \<and> (\<forall>xn yn zn p b.
        x = JNumber xn \<and> y = JNumber yn \<and> z = JNumber zn
        \<and> map_get (cache c) (cacheKey xn yn zn) = None
        \<and> s3Storage env = TileStorage p
        \<and> storage_getTile (s3Client env) p zn xn yn ''png'' = Inr (Some b) \<longrightarrow>
          fst (getTile env c x y z) = Inr b
          \<and> consulted (snd (snd (getTile env c x y z))) = [Memory, Durable])"
  using getTile_consulted [of env c x y z]
  by (auto simp: getTile_memory_hit getTile_durable_hit)

theorem getTile_tier_order_witness:
  "map_get (cache (lru_set (new_cache 2) ''5-7-3'' [7])) (cacheKey (Integer 5) (Integer 7) (Integer 3))
     = Some [7]
   \<and> fst (getTile sample_env (lru_set (new_cache 2) ''5-7-3'' [7])
        (JNumber (Integer 5)) (JNumber (Integer 7)) (JNumber (Integer 3))) = Inr [7]
   \<and> snd (snd (getTile sample_env (lru_set (new_cache 2) ''5-7-3'' [7])
        (JNumber (Integer 5)) (JNumber (Integer 7)) (JNumber (Integer 3)))) = [MemoryGet ''5-7-3'']"
proof -
  have k: "cacheKey (Integer 5) (Integer 7) (Integer 3) = ''5-7-3''"
    by (simp add: cacheKey_def nat_to_string.simps digit_char_def)
  have h: "map_get (cache (lru_set (new_cache 2) ''5-7-3'' [7])) ''5-7-3'' = Some [7]"
    by (simp add: lru_set_def new_cache_def map_has_def)
  from getTile_tier_order
    [of sample_env "lru_set (new_cache 2) ''5-7-3'' [7]"
        "JNumber (Integer 5)" "JNumber (Integer 7)" "JNumber (Integer 3)",
      THEN conjunct2, THEN conjunct1, rule_format, of "Integer 5" "Integer 7" "Integer 3" "[7]"]
    k h
  show ?thesis by simp
qed

lemma getTile_not_durable_error:
  "fst (getTile env c x y z) \<noteq> Inl (DurableStoreError e)"
proof (cases "is_number x \<and> is_number y \<and> is_number z")
  case False
  then show ?thesis by (simp add: getTile_not_numbers)
next
  case True
  then obtain xn yn zn where n: "x = JNumber xn" "y = JNumber yn" "z = JNumber zn"
    by (cases x; cases y; cases z) auto
  have f: "fst (after evs (fetch_from_source env c (cacheKey xn yn zn) xn yn zn))
      \<noteq> Inl (DurableStoreError e)" for evs
    using fetch_from_source_not_durable_error [of env c "cacheKey xn yn zn" xn yn zn e]
    by (cases "fetch_from_source env c (cacheKey xn yn zn) xn yn zn") (simp add: after_def)
  show ?thesis
  proof (cases "map_get (cache c) (cacheKey xn yn zn)")
    case (Some b)
    with n show ?thesis by (simp add: getTile_memory_hit)
  next
    case miss: None
    show ?thesis
    proof (cases "s3Storage env")
      case NullStorage
      with n miss f show ?thesis by (simp add: getTile_no_storage)
    next
      case (TileStorage p)
      show ?thesis
      proof (cases "storage_getTile (s3Client env) p zn xn yn ''png''")
        case (Inl e')
        with n miss TileStorage f show ?thesis by (simp add: getTile_durable_failure)
      next
        case (Inr r)
        with n miss TileStorage f show ?thesis
          by (cases r) (simp_all add: getTile_durable_hit getTile_durable_miss)
      qed
    qed
  qed
qed

lemma save_to_s3_with_send_get:
  "save_to_s3 (with_send_get env f) z x y b = save_to_s3 env z x y b"
  by (simp add: save_to_s3_def with_send_get_def storage_saveTile_def split: storage.splits)

lemma renderLayer_with_send_get:
  "renderLayer_getTile (with_send_get env f) = renderLayer_getTile env"
  by (simp add: with_send_get_def)

lemma fetch_from_source_with_send_get:
  "fetch_from_source (with_send_get env f) c key x y z = fetch_from_source env c key x y z"
  by (simp add: fetch_from_source_def save_to_s3_with_send_get renderLayer_with_send_get
      split: option.splits sum.splits tile_image.splits)

lemma storage_getTile_not_found:
  "storage_getTile (s3Client (with_send_get env not_found)) p z x y fmt = Inr None"
  by (simp add: storage_getTile_def with_send_get_def not_found_def)

lemma getTile_read_failure_is_miss:
  assumes s: "s3Storage env = TileStorage p"
    and e: "storage_getTile (s3Client env) p zn xn yn ''png'' = Inl err"
  shows "fst (getTile env c (JNumber xn) (JNumber yn) (JNumber zn))
           = fst (getTile (with_send_get env not_found) c (JNumber xn) (JNumber yn) (JNumber zn))
       \<and> fst (snd (getTile env c (JNumber xn) (JNumber yn) (JNumber zn)))
           = fst (snd (getTile (with_send_get env not_found) c (JNumber xn) (JNumber yn) (JNumber zn)))
       \<and> removeAll (LogWarn ''Failed to load from S3 cache'')
            (snd (snd (getTile env c (JNumber xn) (JNumber yn) (JNumber zn))))
           = removeAll (LogWarn ''Failed to load from S3 cache'')
            (snd (snd (getTile (with_send_get env not_found) c (JNumber xn) (JNumber yn) (JNumber zn))))"
proof (cases "map_get (cache c) (cacheKey xn yn zn)")
  case (Some b)
  then show ?thesis by (simp add: getTile_memory_hit)
next
  case None
  have s': "s3Storage (with_send_get env not_found) = TileStorage p"
    using s by (simp add: with_send_get_def)
  obtain r c' tr where f: "fetch_from_source env c (cacheKey xn yn zn) xn yn zn = (r, c', tr)"
    by (cases "fetch_from_source env c (cacheKey xn yn zn) xn yn zn")
  show ?thesis
    using getTile_durable_failure [OF None s e]
      getTile_durable_miss [OF None s' storage_getTile_not_found]
    by (simp add: fetch_from_source_with_send_get f after_def)
qed

lemma fetch_from_source_with_send_put:
  "fst (fetch_from_source (with_send_put env f) c key x y z) = fst (fetch_from_source env c key x y z)
   \<and> fst (snd (fetch_from_source (with_send_put env f) c key x y z))
       = fst (snd (fetch_from_source env c key x y z))"
  by (simp add: fetch_from_source_def with_send_put_def after_def
      split: option.splits sum.splits tile_image.splits)

lemma getTile_with_send_put:
  "fst (getTile (with_send_put env f) c x y z) = fst (getTile env c x y z)
   \<and> fst (snd (getTile (with_send_put env f) c x y z)) = fst (snd (getTile env c x y z))"
proof (cases "is_number x \<and> is_number y \<and> is_number z")
  case False
  then show ?thesis by (simp add: getTile_not_numbers)
next
  case True
  then obtain xn yn zn where n: "x = JNumber xn" "y = JNumber yn" "z = JNumber zn"
    by (cases x; cases y; cases z) auto
  have st: "s3Storage (with_send_put env f) = s3Storage env"
    and g: "storage_getTile (s3Client (with_send_put env f)) = storage_getTile (s3Client env)"
    by (simp_all add: with_send_put_def storage_getTile_def fun_eq_iff)
  have ff: "fst (after evs (fetch_from_source (with_send_put env f) c k xn yn zn))
        = fst (after evs (fetch_from_source env c k xn yn zn))
      \<and> fst (snd (after evs (fetch_from_source (with_send_put env f) c k xn yn zn)))
        = fst (snd (after evs (fetch_from_source env c k xn yn zn)))" for evs k
    using fetch_from_source_with_send_put [of env f c k xn yn zn]
    by (cases "fetch_from_source (with_send_put env f) c k xn yn zn";
        cases "fetch_from_source env c k xn yn zn") (simp add: after_def)
  show ?thesis
  proof (cases "map_get (cache c) (cacheKey xn yn zn)")
    case (Some b)
    with n show ?thesis by (simp add: getTile_memory_hit)
  next
    case miss: None
    show ?thesis
    proof (cases "s3Storage env")
      case NullStorage
      with n miss ff st show ?thesis by (simp add: getTile_no_storage)
    next
      case (TileStorage p)
      show ?thesis
      proof (cases "storage_getTile (s3Client env) p zn xn yn ''png''")
        case (Inl e')
        with n miss TileStorage ff st g show ?thesis by (simp add: getTile_durable_failure)
      next
        case (Inr r)
        with n miss TileStorage ff st g show ?thesis
          by (cases r) (simp_all add: getTile_durable_hit getTile_durable_miss)
      qed
    qed
  qed
qed

lemma fetch_from_source_save_logged:
  assumes "DurableSave k b \<in> set (snd (snd (fetch_from_source env c key x y z)))"
    and "send_put (s3Client env) k b \<noteq> None"
  shows "LogWarn ''Failed to save to S3 cache'' \<in> set (snd (snd (fetch_from_source env c key x y z)))
    \<and> fst (fetch_from_source env c key x y z) = Inr b"
  using assms
  by (auto simp: fetch_from_source_def after_def save_to_s3_def storage_saveTile_def
      split: option.splits sum.splits tile_image.splits storage.splits if_splits)

lemma getTile_save_logged:
  assumes d: "DurableSave k b \<in> set (snd (snd (getTile env c x y z)))"
    and p: "send_put (s3Client env) k b \<noteq> None"
  shows "LogWarn ''Failed to save to S3 cache'' \<in> set (snd (snd (getTile env c x y z)))
    \<and> fst (getTile env c x y z) = Inr b"
proof (cases "is_number x \<and> is_number y \<and> is_number z")
  case False
  with d show ?thesis by (simp add: getTile_not_numbers)
next
  case True
  then obtain xn yn zn where n: "x = JNumber xn" "y = JNumber yn" "z = JNumber zn"
    by (cases x; cases y; cases z) auto
  have ff: "DurableSave k b \<in> set (snd (snd (after evs (fetch_from_source env c key xn yn zn))))
      \<Longrightarrow> DurableSave k b \<notin> set evs
      \<Longrightarrow> LogWarn ''Failed to save to S3 cache''
             \<in> set (snd (snd (after evs (fetch_from_source env c key xn yn zn))))
           \<and> fst (after evs (fetch_from_source env c key xn yn zn)) = Inr b" for evs key
    using fetch_from_source_save_logged [of k b env c key xn yn zn] p
    by (cases "fetch_from_source env c key xn yn zn") (auto simp: after_def)
  show ?thesis
  proof (cases "map_get (cache c) (cacheKey xn yn zn)")
    case (Some v)
    with n d show ?thesis by (simp add: getTile_memory_hit)
  next
    case miss: None
    show ?thesis
    proof (cases "s3Storage env")
      case NullStorage
      with n miss d ff show ?thesis by (simp add: getTile_no_storage)
    next
      case (TileStorage pre)
      show ?thesis
      proof (cases "storage_getTile (s3Client env) pre zn xn yn ''png''")
        case (Inl e')
        with n miss TileStorage d ff show ?thesis by (simp add: getTile_durable_failure)
      next
        case (Inr r)
        with n miss TileStorage d ff show ?thesis
          by (cases r) (simp_all add: getTile_durable_hit getTile_durable_miss)
      qed
    qed
  qed
qed

text \<open>
  C6. A failure of the durable store never reaches the caller of \<open>getTile\<close>: the call never
  fails with a durable-store error; when the read of the durable store fails, the result
  and the memory cache are those of the same call with the tile absent from the store
  (the traces differ by the warning alone); the result and the memory cache do not depend
  on the outcome of the write to the store at all; and a write that fails is logged, the
  call returning the bytes it tried to save.
\<close>

theorem durable_failure_never_propagates:
  "(\<forall>e. fst (getTile env c x y z) \<noteq> Inl (DurableStoreError e))
   \<and> (\<forall>xn yn zn p err.
        x = JNumber xn \<and> y = JNumber yn \<and> z = JNumber zn \<and> s3Storage env = TileStorage p
        \<and> storage_getTile (s3Client env) p zn xn yn ''png'' = Inl err \<longrightarrow>
          fst (getTile env c x y z) = fst (getTile (with_send_get env not_found) c x y z)
          \<and> fst (snd (getTile env c x y z))
              = fst (snd (getTile (with_send_get env not_found) c x y z))
          \<and> removeAll (LogWarn ''Failed to load from S3 cache'') (snd (snd (getTile env c x y z)))
              = removeAll (LogWarn ''Failed to load from S3 cache'')
                  (snd (snd (getTile (with_send_get env not_found) c x y z))))
   \<and> (\<forall>put. fst (getTile (with_send_put env put) c x y z) = fst (getTile env c x y z)
          \<and> fst (snd (getTile (with_send_put env put) c x y z)) = fst (snd (getTile env c x y z)))
   \<and> (\<forall>k b. DurableSave k b \<in> set (snd (snd (getTile env c x y z)))
          \<and> send_put (s3Client env) k b \<noteq> None \<longrightarrow>
          LogWarn ''Failed to save to S3 cache'' \<in> set (snd (snd (getTile env c x y z)))
          \<and> fst (getTile env c x y z) = Inr b)"
proof (intro conjI allI impI)
  fix e show "fst (getTile env c x y z) \<noteq> Inl (DurableStoreError e)"
    by (rule getTile_not_durable_error)
next
  fix xn yn zn p err
  assume h: "x = JNumber xn \<and> y = JNumber yn \<and> z = JNumber zn \<and> s3Storage env = TileStorage p
        \<and> storage_getTile (s3Client env) p zn xn yn ''png'' = Inl err"
  then have s: "s3Storage env = TileStorage p"
    and e: "storage_getTile (s3Client env) p zn xn yn ''png'' = Inl err" by simp_all
  note r = getTile_read_failure_is_miss [OF s e, of c]
  from r h show "fst (getTile env c x y z) = fst (getTile (with_send_get env not_found) c x y z)"
    by simp
  from r h show "fst (snd (getTile env c x y z))
              = fst (snd (getTile (with_send_get env not_found) c x y z))"
    by simp
  from r h show "removeAll (LogWarn ''Failed to load from S3 cache'') (snd (snd (getTile env c x y z)))
              = removeAll (LogWarn ''Failed to load from S3 cache'')
                  (snd (snd (getTile (with_send_get env not_found) c x y z)))"
    by simp
next
  fix put
  show "fst (getTile (with_send_put env put) c x y z) = fst (getTile env c x y z)"
    and "fst (snd (getTile (with_send_put env put) c x y z)) = fst (snd (getTile env c x y z))"
    using getTile_with_send_put [of env put c x y z] by simp_all
next
  fix k b
  assume h: "DurableSave k b \<in> set (snd (snd (getTile env c x y z)))
          \<and> send_put (s3Client env) k b \<noteq> None"
  with getTile_save_logged [of k b env c x y z]
  show "LogWarn ''Failed to save to S3 cache'' \<in> set (snd (snd (getTile env c x y z)))"
    and "fst (getTile env c x y z) = Inr b"
    by simp_all
qed

lemma sample_run:
  "getTile sample_env (new_cache 2) (JNumber (Integer 5)) (JNumber (Integer 7)) (JNumber (Integer 3))
   = (Inr [1, 2, 3], lru_set (new_cache 2) ''5-7-3'' [1, 2, 3],
      [MemoryGet ''5-7-3'', DurableGet ''tiles/3/5/7.png'',
       LogWarn ''Failed to load from S3 cache'',
       OriginGetTile (Integer 3) (Integer 5) (Integer 7),
       MemorySet ''5-7-3'' [1, 2, 3], DurableSave ''tiles/3/5/7.png'' [1, 2, 3],
       LogWarn ''Failed to save to S3 cache''])"
  by (simp add: getTile_def Let_def cacheKey_def getTileKey_def lru_get_def new_cache_def
      fetch_from_source_def after_def nat_to_string.simps digit_char_def sample_env_def
      storage_getTile_def save_to_s3_def storage_saveTile_def)

theorem durable_failure_never_propagates_witness:
  "s3Storage sample_env = TileStorage ''tiles''
   \<and> storage_getTile (s3Client sample_env) ''tiles'' (Integer 3) (Integer 5) (Integer 7) ''png''
       = Inl (S3Error ''AccessDenied'')
   \<and> DurableSave ''tiles/3/5/7.png'' [1, 2, 3]
       \<in> set (snd (snd (getTile sample_env (new_cache 2)
            (JNumber (Integer 5)) (JNumber (Integer 7)) (JNumber (Integer 3)))))
   \<and> send_put (s3Client sample_env) ''tiles/3/5/7.png'' [1, 2, 3] \<noteq> None
   \<and> fst (getTile sample_env (new_cache 2)
            (JNumber (Integer 5)) (JNumber (Integer 7)) (JNumber (Integer 3))) = Inr [1, 2, 3]
   \<and> fst (getTile (with_send_get sample_env not_found) (new_cache 2)
            (JNumber (Integer 5)) (JNumber (Integer 7)) (JNumber (Integer 3))) = Inr [1, 2, 3]"
proof -
  have s: "s3Storage sample_env = TileStorage ''tiles''"
    by (simp add: sample_env_def)
  have g: "storage_getTile (s3Client sample_env) ''tiles'' (Integer 3) (Integer 5) (Integer 7) ''png''
       = Inl (S3Error ''AccessDenied'')"
    by (simp add: sample_env_def storage_getTile_def)
  have p: "send_put (s3Client sample_env) ''tiles/3/5/7.png'' [1, 2, 3] \<noteq> None"
    by (simp add: sample_env_def)
  note t = durable_failure_never_propagates
    [of sample_env "new_cache 2" "JNumber (Integer 5)" "JNumber (Integer 7)" "JNumber (Integer 3)"]
  from t [THEN conjunct2, THEN conjunct1, rule_format,
      of "Integer 5" "Integer 7" "Integer 3" "''tiles''" "S3Error ''AccessDenied''"] s g
  have m: "fst (getTile sample_env (new_cache 2)
            (JNumber (Integer 5)) (JNumber (Integer 7)) (JNumber (Integer 3)))
      = fst (getTile (with_send_get sample_env not_found) (new_cache 2)
            (JNumber (Integer 5)) (JNumber (Integer 7)) (JNumber (Integer 3)))"
    by simp
  have d: "DurableSave ''tiles/3/5/7.png'' [1, 2, 3]
       \<in> set (snd (snd (getTile sample_env (new_cache 2)
            (JNumber (Integer 5)) (JNumber (Integer 7)) (JNumber (Integer 3)))))"
    by (simp add: sample_run)
  from t [THEN conjunct2, THEN conjunct2, THEN conjunct2, rule_format,
      of "''tiles/3/5/7.png''" "[1, 2, 3]"] d p
  have "fst (getTile sample_env (new_cache 2)
            (JNumber (Integer 5)) (JNumber (Integer 7)) (JNumber (Integer 3))) = Inr [1, 2, 3]"
    by simp
  with s g p d m show ?thesis by simp
qed

section \<open>Properties of \<open>forEachPoint\<close>\<close>

lemma length_write: "length xs \<le> length (array_write xs i v)"
  by (simp add: array_write_def)

lemma nth_write_other: "j < length xs \<Longrightarrow> int j \<noteq> i \<Longrightarrow> array_write xs i v ! j = xs ! j"
  by (auto simp: array_write_def nth_append)

lemma apply_point_frame:
  assumes "j < length out" and "int j \<noteq> off" and "int j \<noteq> off + 1"
  shows "snd (apply_point f False (inp, out) off) ! j = out ! j"
    and "length out \<le> length (snd (apply_point f False (inp, out) off))"
    and "fst (apply_point f False (inp, out) off) = inp"
proof -
  have "j < length (array_write out off a)" for a
    using assms(1) length_write [of out off a] by simp
  then show "snd (apply_point f False (inp, out) off) ! j = out ! j"
    using assms by (simp add: apply_point_def Let_def nth_write_other)
  show "length out \<le> length (snd (apply_point f False (inp, out) off))"
    using length_write [of out off] length_write [of "array_write out off a" "off + 1" for a]
    by (simp add: apply_point_def Let_def) (meson order_trans)
  show "fst (apply_point f False (inp, out) off) = inp"
    by (simp add: apply_point_def Let_def)
qed

lemma forEachPoint_loop_frame:
  assumes d: "2 < d"
  shows "0 \<le> off \<Longrightarrow> off mod d = 0 \<Longrightarrow>
    \<exists>out'. forEachPoint_loop f False d len (inp, out) off = Some out'
      \<and> length out \<le> length out'
      \<and> (\<forall>j < length out. 2 \<le> int j mod d \<longrightarrow> out' ! j = out ! j)"
proof (induction "nat (len - off)" arbitrary: off out rule: less_induct)
  case less
  show ?case
  proof (cases "off < len")
    case False
    then show ?thesis by (subst forEachPoint_loop.simps) simp
  next
    case True
    define out1 where "out1 = snd (apply_point f False (inp, out) off)"
    have a: "apply_point f False (inp, out) off = (inp, out1)"
      by (simp add: out1_def apply_point_def Let_def)
    have len1: "length out \<le> length out1"
      by (simp add: out1_def apply_point_def Let_def)
        (meson length_write order_trans)
    have keep: "out1 ! j = out ! j" if "j < length out" "2 \<le> int j mod d" for j
    proof -
      have "(off + 1) mod d = (off mod d + 1 mod d) mod d"
        by (simp add: mod_add_eq)
      with less.prems d have "off mod d = 0" "(off + 1) mod d = 1"
        by simp_all
      with that have "int j \<noteq> off" "int j \<noteq> off + 1" by auto
      with that(1) show ?thesis
        unfolding out1_def by (intro apply_point_frame(1))
    qed
    have "nat (len - (off + d)) < nat (len - off)" using True d by simp
    moreover have "0 \<le> off + d" "(off + d) mod d = 0"
      using less.prems d by simp_all
    ultimately have "\<exists>out'. forEachPoint_loop f False d len (inp, out1) (off + d) = Some out'
      \<and> length out1 \<le> length out'
      \<and> (\<forall>j < length out1. 2 \<le> int j mod d \<longrightarrow> out' ! j = out1 ! j)"
      by (rule less.hyps)
    then obtain out' where
      r: "forEachPoint_loop f False d len (inp, out1) (off + d) = Some out'"
      and l: "length out1 \<le> length out'"
      and k: "\<forall>j < length out1. 2 \<le> int j mod d \<longrightarrow> out' ! j = out1 ! j"
      by (elim exE conjE)
    have "forEachPoint_loop f False d len (inp, out) off = Some out'"
      using True a r by (subst forEachPoint_loop.simps) simp
    moreover have "length out \<le> length out'" using len1 l by simp
    moreover have "\<forall>j < length out. 2 \<le> int j mod d \<longrightarrow> out' ! j = out ! j"
      using k keep len1 by auto
    ultimately show ?thesis by blast
  qed
qed

text \<open>
  C9. With the output omitted and a dimension above 2, the call returns; its result is
  the input array with no slot changed but the first two of each point: it is at least as
  long as the input, and at every index of the input that is at position 2 or more of its
  tuple the result holds the value of the input. It holds for every point transform.
\<close>

theorem forEachPoint_preserves_payload:
  "2 < d \<Longrightarrow>
     \<exists>output. forEachPoint transformFunc input Omitted (Some d) = Some output
       \<and> length input \<le> length output
       \<and> (\<forall>j < length input. 2 \<le> int j mod d \<longrightarrow> output ! j = input ! j)"
  using forEachPoint_loop_frame [of d 0 transformFunc "int (length input)" input input]
  by (simp add: forEachPoint_def initial_output_def)

theorem forEachPoint_preserves_payload_witness:
  "(2::int) < 3
   \<and> forEachPoint (\<lambda>a b. (js_add a (Num 1), js_sub b (Num 1)))
        [Num 120, Num 30, Num 7, Num 121, Num 31, Num 8] Omitted (Some 3)
       = Some [Num 121, Num 29, Num 7, Num 122, Num 30, Num 8]"
proof -
  have "forEachPoint (\<lambda>a b. (js_add a (Num 1), js_sub b (Num 1)))
        [Num 120, Num 30, Num 7, Num 121, Num 31, Num 8] Omitted (Some 3)
       = Some [Num 121, Num 29, Num 7, Num 122, Num 30, Num 8]"
    by (simp add: forEachPoint_def initial_output_def forEachPoint_loop.simps apply_point_def
        array_read_def array_write_def js_sub_def Let_def)
  with forEachPoint_preserves_payload
    [of 3 "\<lambda>a b. (js_add a (Num 1), js_sub b (Num 1))"
       "[Num 120, Num 30, Num 7, Num 121, Num 31, Num 8]"]
  show ?thesis by simp
qed

section \<open>Properties of the transforms\<close>

lemma forEachPoint_one_point:
  "forEachPoint f [a, b] Omitted None = Some [fst (f a b), snd (f a b)]"
  by (simp add: forEachPoint_def initial_output_def forEachPoint_loop.simps apply_point_def
      array_read_def array_write_def Let_def)

lemma forEachPoint2_one_point:
  "forEachPoint2 f [a, b] Omitted None = Some [fst (f a b), snd (f a b)]"
  by (simp add: forEachPoint2_def initial_output_def forEachPoint_loop.simps apply_point_def
      array_read_def array_write_def Let_def)

lemma outOfChina_Num:
  "outOfChina (Num lon) (Num lat)
     \<longleftrightarrow> lon < 72.004 \<or> lon > 137.8347 \<or> lat < 0.8293 \<or> lat > 55.8271"
  by (simp add: outOfChina_def)

text \<open>
  C8. Outside the region, that is with \<open>lon < 72.004\<close> or \<open>lon > 137.8347\<close> or
  \<open>lat < 0.8293\<close> or \<open>lat > 55.8271\<close>, both transforms return the point as it is.
\<close>

theorem outside_china_identity:
  "lon < 72.004 \<or> lon > 137.8347 \<or> lat < 0.8293 \<or> lat > 55.8271 \<Longrightarrow>
     toWGS84 [Num lon, Num lat] Omitted None = Some [Num lon, Num lat]
     \<and> fromWGS84 [Num lon, Num lat] Omitted None = Some [Num lon, Num lat]"
  by (simp add: toWGS84_def fromWGS84_def forEachPoint_one_point toWGS84_point_def
      fromWGS84_point_def outOfChina_Num)

theorem outside_china_identity_witness:
  "((- 74.0 :: real) < 72.004 \<or> (- 74.0 :: real) > 137.8347
      \<or> (40.7 :: real) < 0.8293 \<or> (40.7 :: real) > 55.8271)
   \<and> toWGS84 [Num (- 74.0), Num 40.7] Omitted None = Some [Num (- 74.0), Num 40.7]
   \<and> fromWGS84 [Num (- 74.0), Num 40.7] Omitted None = Some [Num (- 74.0), Num 40.7]"
  using outside_china_identity [of "- 74.0" "40.7"] by simp

lemma magic_bounds:
  "1 - OFFSET \<le> 1 - OFFSET * sin r * sin r" "1 - OFFSET * sin r * sin r \<le> 1"
proof -
  have "sin r * sin r \<le> 1"
    using abs_sin_le_one [of r] by (metis abs_mult_self_eq mult_le_one abs_ge_zero)
  moreover have "0 \<le> sin r * sin r" by simp
  moreover have "0 \<le> OFFSET" by (simp add: OFFSET_def)
  ultimately have "0 \<le> OFFSET * (sin r * sin r)" "OFFSET * (sin r * sin r) \<le> OFFSET * 1"
    by (simp_all only: mult_left_mono mult_nonneg_nonneg)
  then show "1 - OFFSET \<le> 1 - OFFSET * sin r * sin r" "1 - OFFSET * sin r * sin r \<le> 1"
    by (simp_all add: mult.assoc)
qed

lemma magic_pos: "0 < 1 - OFFSET * sin r * sin r"
proof -
  have "0 < 1 - OFFSET" by (simp add: OFFSET_def)
  with magic_bounds(1) [of r] show ?thesis by linarith
qed

lemma transformLat_origin: "transformLat 0 0 = - 100"
  by (simp add: transformLat_def)

lemma delta_anchor_lat: "snd (delta 105 35) < 0"
proof -
  define m where "m = 1 - OFFSET * sin (35 / 180 * pi) * sin (35 / 180 * pi)"
  have m: "0 < m" unfolding m_def by (rule magic_pos)
  then have s: "0 < sqrt m" by simp
  have "0 < AXIS * (1 - OFFSET)" by (simp add: AXIS_def OFFSET_def)
  with m s have "0 < ((AXIS * (1 - OFFSET)) / (m * sqrt m)) * pi" by simp
  then have "(- 100 * 180) / (((AXIS * (1 - OFFSET)) / (m * sqrt m)) * pi) < 0"
    by (intro divide_neg_pos) simp_all
  moreover have "snd (delta 105 35) = (- 100 * 180) / (((AXIS * (1 - OFFSET)) / (m * sqrt m)) * pi)"
    by (simp add: delta_def Let_def transformLat_origin m_def)
  ultimately show ?thesis by simp
qed

lemma delta2_eq: "delta2 = delta"
  by (simp add: fun_eq_iff delta2_def delta_def transformLat2_def transformLat_def
      transformLon2_def transformLon_def Let_def)

lemma anchor_inside: "\<not> outOfChina (Num 105) (Num 35)" "\<not> outOfChina2 (Num 105) (Num 35)"
  by (simp_all add: outOfChina_def outOfChina2_def)

text \<open>
  C2 does not hold of the code. At the anchor point (105, 35), inside the region, the
  first definition of \<open>toWGS84\<close> gives the latitude \<open>35 - dLat\<close> and the second gives
  \<open>35 + dLat\<close>, where \<open>dLat\<close> is the latitude offset of \<open>delta\<close> there, which is negative;
  likewise \<open>fromWGS84\<close> gives \<open>35 + dLat\<close> and \<open>35 - dLat\<close>.
\<close>

theorem toWGS84_definitions_differ:
  "toWGS84 [Num 105, Num 35] Omitted None
     = Some [Num (105 - fst (delta 105 35)), Num (35 - snd (delta 105 35))]
   \<and> toWGS84_2 [Num 105, Num 35] Omitted None
     = Some [Num (105 + fst (delta 105 35)), Num (35 + snd (delta 105 35))]
   \<and> fromWGS84 [Num 105, Num 35] Omitted None
     = Some [Num (105 + fst (delta 105 35)), Num (35 + snd (delta 105 35))]
   \<and> fromWGS84_2 [Num 105, Num 35] Omitted None
     = Some [Num (105 - fst (delta 105 35)), Num (35 - snd (delta 105 35))]
   \<and> snd (delta 105 35) < 0
   \<and> toWGS84 [Num 105, Num 35] Omitted None \<noteq> toWGS84_2 [Num 105, Num 35] Omitted None
   \<and> fromWGS84 [Num 105, Num 35] Omitted None \<noteq> fromWGS84_2 [Num 105, Num 35] Omitted None"
proof -
  have a: "toWGS84 [Num 105, Num 35] Omitted None
     = Some [Num (105 - fst (delta 105 35)), Num (35 - snd (delta 105 35))]"
    by (simp add: toWGS84_def forEachPoint_one_point toWGS84_point_def anchor_inside
        delta_elem_def js_sub_def Let_def)
  have b: "toWGS84_2 [Num 105, Num 35] Omitted None
     = Some [Num (105 + fst (delta 105 35)), Num (35 + snd (delta 105 35))]"
    by (simp add: toWGS84_2_def forEachPoint2_one_point toWGS84_point2_def anchor_inside
        delta_elem2_def delta2_eq Let_def)
  have c: "fromWGS84 [Num 105, Num 35] Omitted None
     = Some [Num (105 + fst (delta 105 35)), Num (35 + snd (delta 105 35))]"
    by (simp add: fromWGS84_def forEachPoint_one_point fromWGS84_point_def anchor_inside
        delta_elem_def Let_def)
  have d: "fromWGS84_2 [Num 105, Num 35] Omitted None
     = Some [Num (105 - fst (delta 105 35)), Num (35 - snd (delta 105 35))]"
    by (simp add: fromWGS84_2_def forEachPoint2_one_point fromWGS84_point2_def anchor_inside
        delta_elem2_def delta2_eq js_sub_def Let_def)
  note n = delta_anchor_lat
  from a b n have "toWGS84 [Num 105, Num 35] Omitted None \<noteq> toWGS84_2 [Num 105, Num 35] Omitted None"
    by simp
  moreover from c d n
  have "fromWGS84 [Num 105, Num 35] Omitted None \<noteq> fromWGS84_2 [Num 105, Num 35] Omitted None"
    by simp
  ultimately show ?thesis using a b c d n by simp
qed

lemma pi_ge_3: "3 \<le> pi"
proof -
  have "sin (pi / 6) \<le> pi / 6" by (intro sin_x_le_x) simp
  then show ?thesis by (simp add: sin_30)
qed

lemma sqrt_magic_bounds:
  "996 / 1000 \<le> sqrt (1 - OFFSET * sin r * sin r)" "sqrt (1 - OFFSET * sin r * sin r) \<le> 1"
proof -
  have "(996 / 1000)\<^sup>2 \<le> 1 - OFFSET" by (simp add: OFFSET_def power2_eq_square)
  with magic_bounds(1) [of r] have "(996 / 1000)\<^sup>2 \<le> 1 - OFFSET * sin r * sin r"
    by linarith
  then show "996 / 1000 \<le> sqrt (1 - OFFSET * sin r * sin r)" by (rule real_le_rsqrt)
  from magic_bounds(2) [of r] show "sqrt (1 - OFFSET * sin r * sin r) \<le> 1" by simp
qed

lemma transformLon_lower:
  "300 + x + 2 * y + x * x / 10 + x * y / 10 - 1100 / 3 \<le> transformLon x y"
proof -
  have s: "- 1 \<le> sin (6 * x * pi)" "- 1 \<le> sin (2 * x * pi)" "- 1 \<le> sin (x * pi)"
    "- 1 \<le> sin (x / 3 * pi)" "- 1 \<le> sin (x / 12 * pi)" "- 1 \<le> sin (x / 30 * pi)"
    by simp_all
  have q: "0 \<le> sqrt \<bar>x\<bar>" by simp
  have "transformLon x y = 300 + x + 2 * y + x * x / 10 + x * y / 10 + sqrt \<bar>x\<bar> / 10
      + (20 * sin (6 * x * pi) + 20 * sin (2 * x * pi)) * 2 / 3
      + (20 * sin (x * pi) + 40 * sin (x / 3 * pi)) * 2 / 3
      + (150 * sin (x / 12 * pi) + 300 * sin (x / 30 * pi)) * 2 / 3"
    by (simp add: transformLon_def Let_def)
  moreover have "p - 1100 / 3 \<le> p + r / 10 + (20 * a + 20 * b) * 2 / 3
      + (20 * c + 40 * d) * 2 / 3 + (150 * e + 300 * f) * 2 / 3"
    if "- 1 \<le> a" "- 1 \<le> b" "- 1 \<le> c" "- 1 \<le> d" "- 1 \<le> e" "- 1 \<le> f" "0 \<le> r"
    for p r a b c d e f :: real
    using that by argo
  from this [OF s q, of "300 + x + 2 * y + x * x / 10 + x * y / 10"]
  have "300 + x + 2 * y + x * x / 10 + x * y / 10 - 1100 / 3
      \<le> 300 + x + 2 * y + x * x / 10 + x * y / 10 + sqrt \<bar>x\<bar> / 10
      + (20 * sin (6 * x * pi) + 20 * sin (2 * x * pi)) * 2 / 3
      + (20 * sin (x * pi) + 40 * sin (x / 3 * pi)) * 2 / 3
      + (150 * sin (x / 12 * pi) + 300 * sin (x / 30 * pi)) * 2 / 3" .
  ultimately show ?thesis by simp
qed

lemma delta_west_edge: "3 / 10000 < fst (delta 72.0041 5)"
proof -
  define m where "m = 1 - OFFSET * sin (5 / 180 * pi) * sin (5 / 180 * pi)"
  define raw where "raw = transformLon (72.0041 - 105) (5 - 35)"
  define den where "den = (AXIS / sqrt m) * cos (5 / 180 * pi) * pi"
  have d: "fst (delta 72.0041 5) = (raw * 180) / den"
    by (simp add: delta_def Let_def raw_def den_def m_def)
  have raw: "48 \<le> raw"
    unfolding raw_def
    using transformLon_lower [of "72.0041 - 105" "5 - 35"] by simp
  have s: "996 / 1000 \<le> sqrt m" "sqrt m \<le> 1"
    using sqrt_magic_bounds [of "5 / 180 * pi"] by (simp_all add: m_def)
  then have s0: "0 < sqrt m" by linarith
  have c: "0 < cos (5 / 180 * pi)" "cos (5 / 180 * pi) \<le> 1"
    by (intro cos_gt_zero_pi) (use pi_gt_zero in simp_all)
  have a0: "0 < AXIS" by (simp add: AXIS_def)
  have a: "0 < AXIS / sqrt m" "AXIS / sqrt m \<le> AXIS / (996 / 1000)"
  proof -
    show "0 < AXIS / sqrt m" using a0 s0 by simp
    show "AXIS / sqrt m \<le> AXIS / (996 / 1000)"
      using s(1) s0 a0 by (intro divide_left_mono) simp_all
  qed
  have u: "AXIS / sqrt m * cos (5 / 180 * pi) \<le> AXIS / (996 / 1000) * 1"
  proof (rule mult_mono)
    show "AXIS / sqrt m \<le> AXIS / (996 / 1000)" by (rule a(2))
    show "cos (5 / 180 * pi) \<le> 1" by (rule c(2))
    show "0 \<le> AXIS / (996 / 1000)" using a0 by simp
    show "0 \<le> cos (5 / 180 * pi)" using c(1) by (rule less_imp_le)
  qed
  have up: "0 < AXIS / sqrt m * cos (5 / 180 * pi)"
    using a(1) c(1) by (rule mult_pos_pos)
  have "den \<le> AXIS / (996 / 1000) * 1 * 4"
    unfolding den_def
  proof (rule mult_mono)
    show "AXIS / sqrt m * cos (5 / 180 * pi) \<le> AXIS / (996 / 1000) * 1" by (rule u)
    show "pi \<le> 4" using pi_less_4 by (rule less_imp_le)
    show "0 \<le> AXIS / (996 / 1000) * 1" using a0 by simp
    show "0 \<le> pi" by simp
  qed
  then have den: "den \<le> 25615442" by (simp add: AXIS_def)
  have dp: "0 < den"
    unfolding den_def using up pi_gt_zero by (rule mult_pos_pos)
  have "(48 * 180) / 25615442 \<le> (raw * 180) / den"
    using raw den dp by (intro frac_le) simp_all
  moreover have "(3::real) / 10000 < (48 * 180) / 25615442" by simp
  ultimately show ?thesis using d by simp
qed

lemma round_trip_point:
  "round_trip [a, b]
     = Some [fst (fromWGS84_point (fst (toWGS84_point a b)) (snd (toWGS84_point a b))),
             snd (fromWGS84_point (fst (toWGS84_point a b)) (snd (toWGS84_point a b)))]"
  by (simp add: round_trip_def toWGS84_def fromWGS84_def forEachPoint_one_point)

lemma toWGS84_point_inside:
  "\<not> outOfChina (Num lon) (Num lat) \<Longrightarrow>
     toWGS84_point (Num lon) (Num lat)
       = (Num (lon - fst (delta lon lat)), Num (lat - snd (delta lon lat)))"
  by (simp add: toWGS84_point_def delta_elem_def js_sub_def Let_def)

lemma fromWGS84_point_inside:
  "\<not> outOfChina (Num lon) (Num lat) \<Longrightarrow>
     fromWGS84_point (Num lon) (Num lat)
       = (Num (lon + fst (delta lon lat)), Num (lat + snd (delta lon lat)))"
  by (simp add: fromWGS84_point_def delta_elem_def Let_def)

lemma fromWGS84_point_outside:
  "outOfChina a b \<Longrightarrow> fromWGS84_point a b = (a, b)"
  by (simp add: fromWGS84_point_def)

text \<open>
  C7 does not hold at the edge of the region. The point (72.0041, 5) is strictly inside;
  its offset in longitude is more than 0.0003 degrees, so \<open>toWGS84\<close> moves it west of
  72.004, out of the region, where \<open>fromWGS84\<close> is the identity: the round trip returns
  the longitude \<open>72.0041 - dLon\<close>, off by the whole offset.
\<close>

theorem round_trip_west_edge_counterexample:
  "(72.004 :: real) < 72.0041 \<and> (72.0041 :: real) < 137.8347
   \<and> (0.8293 :: real) < 5 \<and> (5 :: real) < 55.8271
   \<and> round_trip [Num 72.0041, Num 5]
       = Some [Num (72.0041 - fst (delta 72.0041 5)), Num (5 - snd (delta 72.0041 5))]
   \<and> 3 / 10000 < fst (delta 72.0041 5)"
proof -
  have i: "\<not> outOfChina (Num 72.0041) (Num 5)" by (simp add: outOfChina_Num)
  have "72.0041 - fst (delta 72.0041 5) < 72.004"
    using delta_west_edge by simp
  then have o: "outOfChina (Num (72.0041 - fst (delta 72.0041 5))) (Num (5 - snd (delta 72.0041 5)))"
    by (simp add: outOfChina_Num)
  have "round_trip [Num 72.0041, Num 5]
       = Some [Num (72.0041 - fst (delta 72.0041 5)), Num (5 - snd (delta 72.0041 5))]"
    by (simp only: round_trip_point toWGS84_point_inside [OF i] fst_conv snd_conv
        fromWGS84_point_outside [OF o])
  with delta_west_edge show ?thesis by simp
qed

subsection \<open>Bounds on the offset inside the region\<close>

lemma transformLon_eq:
  "transformLon x y = 300 + x + 2 * y + (x * x) / 10 + (x * y) / 10 + sqrt \<bar>x\<bar> / 10
      + (20 * sin (6 * x * pi) + 20 * sin (2 * x * pi)) * 2 / 3
      + (20 * sin (x * pi) + 40 * sin (x / 3 * pi)) * 2 / 3
      + (150 * sin (x / 12 * pi) + 300 * sin (x / 30 * pi)) * 2 / 3"
  by (simp add: transformLon_def Let_def)

lemma transformLat_eq:
  "transformLat x y = - 100 + 2 * x + 3 * y + (y * y) / 5 + (x * y) / 10 + sqrt \<bar>x\<bar> / 5
      + (20 * sin (6 * x * pi) + 20 * sin (2 * x * pi)) * 2 / 3
      + (20 * sin (y * pi) + 40 * sin (y / 3 * pi)) * 2 / 3
      + (160 * sin (y / 12 * pi) + 320 * sin (y * pi / 30)) * 2 / 3"
  by (simp add: transformLat_def Let_def)

lemma abs_mult_le: "\<bar>a\<bar> \<le> c \<Longrightarrow> \<bar>b\<bar> \<le> d \<Longrightarrow> \<bar>a * b :: real\<bar> \<le> c * d"
  by (simp add: abs_mult mult_mono)

lemma sqrt_abs_le_6: "\<bar>x\<bar> \<le> 33 \<Longrightarrow> sqrt \<bar>x\<bar> \<le> 6"
  by (intro real_le_lsqrt) simp_all

lemma transformLon_bound:
  assumes x: "\<bar>x\<bar> \<le> 33" and y: "\<bar>y\<bar> \<le> 35"
  shows "\<bar>transformLon x y\<bar> \<le> 995"
proof -
  have xx: "\<bar>x * x\<bar> \<le> 33 * 33" using x x by (rule abs_mult_le)
  have xy: "\<bar>x * y\<bar> \<le> 33 * 35" using x y by (rule abs_mult_le)
  have q: "0 \<le> sqrt \<bar>x\<bar>" "sqrt \<bar>x\<bar> \<le> 6" using x by (simp_all add: sqrt_abs_le_6)
  have s: "\<bar>sin (6 * x * pi)\<bar> \<le> 1" "\<bar>sin (2 * x * pi)\<bar> \<le> 1" "\<bar>sin (x * pi)\<bar> \<le> 1"
    "\<bar>sin (x / 3 * pi)\<bar> \<le> 1" "\<bar>sin (x / 12 * pi)\<bar> \<le> 1" "\<bar>sin (x / 30 * pi)\<bar> \<le> 1"
    by simp_all
  have "\<bar>300 + x + 2 * y + xx / 10 + xy / 10 + r / 10
      + (20 * a + 20 * b) * 2 / 3 + (20 * c + 40 * d) * 2 / 3 + (150 * e + 300 * f) * 2 / 3\<bar> \<le> 995"
    if "\<bar>x\<bar> \<le> 33" "\<bar>y\<bar> \<le> 35" "\<bar>xx\<bar> \<le> 33 * 33" "\<bar>xy\<bar> \<le> 33 * 35" "0 \<le> r" "r \<le> 6"
      "\<bar>a\<bar> \<le> 1" "\<bar>b\<bar> \<le> 1" "\<bar>c\<bar> \<le> 1" "\<bar>d\<bar> \<le> 1" "\<bar>e\<bar> \<le> 1" "\<bar>f\<bar> \<le> 1"
    for x y xx xy r a b c d e f :: real
    using that by argo
  from this [OF x y xx xy q s] show ?thesis by (simp only: transformLon_eq)
qed

lemma transformLat_bound:
  assumes x: "\<bar>x\<bar> \<le> 33" and y: "\<bar>y\<bar> \<le> 35"
  shows "\<bar>transformLat x y\<bar> \<le> 1020"
proof -
  have yy: "\<bar>y * y\<bar> \<le> 35 * 35" using y y by (rule abs_mult_le)
  have xy: "\<bar>x * y\<bar> \<le> 33 * 35" using x y by (rule abs_mult_le)
  have q: "0 \<le> sqrt \<bar>x\<bar>" "sqrt \<bar>x\<bar> \<le> 6" using x by (simp_all add: sqrt_abs_le_6)
  have s: "\<bar>sin (6 * x * pi)\<bar> \<le> 1" "\<bar>sin (2 * x * pi)\<bar> \<le> 1" "\<bar>sin (y * pi)\<bar> \<le> 1"
    "\<bar>sin (y / 3 * pi)\<bar> \<le> 1" "\<bar>sin (y / 12 * pi)\<bar> \<le> 1" "\<bar>sin (y * pi / 30)\<bar> \<le> 1"
    by simp_all
  have "\<bar>- 100 + 2 * x + 3 * y + yy / 5 + xy / 10 + r / 5
      + (20 * a + 20 * b) * 2 / 3 + (20 * c + 40 * d) * 2 / 3 + (160 * e + 320 * f) * 2 / 3\<bar> \<le> 1020"
    if "\<bar>x\<bar> \<le> 33" "\<bar>y\<bar> \<le> 35" "\<bar>yy\<bar> \<le> 35 * 35" "\<bar>xy\<bar> \<le> 33 * 35" "0 \<le> r" "r \<le> 6"
      "\<bar>a\<bar> \<le> 1" "\<bar>b\<bar> \<le> 1" "\<bar>c\<bar> \<le> 1" "\<bar>d\<bar> \<le> 1" "\<bar>e\<bar> \<le> 1" "\<bar>f\<bar> \<le> 1"
    for x y yy xy r a b c d e f :: real
    using that by argo
  from this [OF x y yy xy q s] show ?thesis by (simp only: transformLat_eq)
qed

lemma sin_lipschitz: "\<bar>sin u - sin v\<bar> \<le> \<bar>u - v :: real\<bar>"
proof -
  have "\<bar>sin u - sin v\<bar> = 2 * \<bar>sin ((u - v) / 2)\<bar> * \<bar>cos ((u + v) / 2)\<bar>"
    by (simp add: sin_diff_sin abs_mult)
  also have "\<dots> \<le> 2 * \<bar>(u - v) / 2\<bar> * 1"
    by (intro mult_mono abs_sin_x_le_abs_x) simp_all
  finally show ?thesis by simp
qed

lemma cos_lipschitz: "\<bar>cos u - cos v\<bar> \<le> \<bar>u - v :: real\<bar>"
proof -
  have "\<bar>cos u - cos v\<bar> = 2 * \<bar>sin ((u + v) / 2)\<bar> * \<bar>sin ((v - u) / 2)\<bar>"
    by (simp add: cos_diff_cos abs_mult)
  also have "\<dots> \<le> 2 * 1 * \<bar>(v - u) / 2\<bar>"
    by (intro mult_mono abs_sin_x_le_abs_x) simp_all
  finally show ?thesis by (simp add: abs_minus_commute)
qed

lemma sin_scaled_diff:
  assumes "\<bar>t' - t\<bar> \<le> d"
  shows "\<bar>sin (k * t' * pi) - sin (k * t * pi)\<bar> \<le> 4 * \<bar>k\<bar> * d"
proof -
  have "\<bar>sin (k * t' * pi) - sin (k * t * pi)\<bar> \<le> \<bar>k * t' * pi - k * t * pi\<bar>"
    by (rule sin_lipschitz)
  also have "\<dots> = \<bar>k\<bar> * \<bar>t' - t\<bar> * pi"
  proof -
    have "k * t' * pi - k * t * pi = k * (t' - t) * pi" by (simp add: algebra_simps)
    then show ?thesis by (simp add: abs_mult)
  qed
  also have "\<dots> \<le> \<bar>k\<bar> * d * 4"
    using assms pi_less_4 by (intro mult_mono) simp_all
  finally show ?thesis by simp
qed

lemma sqrt_abs_diff: "\<bar>sqrt \<bar>u\<bar> - sqrt \<bar>v\<bar>\<bar> \<le> sqrt \<bar>u - v\<bar>"
proof -
  have h: "sqrt \<bar>a\<bar> - sqrt \<bar>b\<bar> \<le> sqrt \<bar>a - b\<bar>" for a b :: real
  proof -
    have "\<bar>a\<bar> \<le> \<bar>b\<bar> + \<bar>a - b\<bar>" by simp
    then have "sqrt \<bar>a\<bar> \<le> sqrt (\<bar>b\<bar> + \<bar>a - b\<bar>)" by simp
    also have "\<dots> \<le> sqrt \<bar>b\<bar> + sqrt \<bar>a - b\<bar>"
      by (intro sqrt_add_le_add_sqrt) simp_all
    finally show ?thesis by simp
  qed
  from h [of u v] h [of v u] show ?thesis by (simp add: abs_minus_commute abs_le_iff)
qed

lemma sqrt_abs_diff_small:
  assumes "\<bar>x' - x\<bar> \<le> 19 / 1000"
  shows "\<bar>sqrt \<bar>x'\<bar> - sqrt \<bar>x\<bar>\<bar> \<le> 14 / 100"
proof -
  have "sqrt \<bar>x' - x\<bar> \<le> 14 / 100"
    using assms by (intro real_le_lsqrt) (simp_all add: power2_eq_square)
  with sqrt_abs_diff [of x' x] show ?thesis by simp
qed

lemma product_diff:
  assumes "\<bar>a' - a\<bar> \<le> da" and "\<bar>b' - b\<bar> \<le> db" and "\<bar>a'\<bar> \<le> ca" and "\<bar>b\<bar> \<le> cb"
  shows "\<bar>a' * b' - a * b :: real\<bar> \<le> ca * db + da * cb"
proof -
  have "a' * b' - a * b = a' * (b' - b) + (a' - a) * b" by (simp add: algebra_simps)
  then have "\<bar>a' * b' - a * b\<bar> \<le> \<bar>a' * (b' - b)\<bar> + \<bar>(a' - a) * b\<bar>" by simp
  also have "\<dots> \<le> ca * db + da * cb"
    using assms by (intro add_mono abs_mult_le)
  finally show ?thesis .
qed

lemma transformLon_lipschitz:
  assumes x: "\<bar>x\<bar> \<le> 33" and x': "\<bar>x'\<bar> \<le> 33" and y: "\<bar>y\<bar> \<le> 35" and y': "\<bar>y'\<bar> \<le> 35"
    and dx: "\<bar>x' - x\<bar> \<le> 19 / 1000" and dy: "\<bar>y' - y\<bar> \<le> 1 / 100"
  shows "\<bar>transformLon x' y' - transformLon x y\<bar> \<le> 113 / 10"
proof -
  have xx: "\<bar>x' * x' - x * x\<bar> \<le> 33 * (19 / 1000) + (19 / 1000) * 33"
    using dx dx x' x by (rule product_diff)
  have xy: "\<bar>x' * y' - x * y\<bar> \<le> 33 * (1 / 100) + (19 / 1000) * 35"
    using dx dy x' y by (rule product_diff)
  have r: "\<bar>sqrt \<bar>x'\<bar> - sqrt \<bar>x\<bar>\<bar> \<le> 14 / 100"
    using dx by (rule sqrt_abs_diff_small)
  have s1: "\<bar>sin (6 * x' * pi) - sin (6 * x * pi)\<bar> \<le> 4 * \<bar>6\<bar> * (19 / 1000)"
    using dx by (rule sin_scaled_diff)
  have s2: "\<bar>sin (2 * x' * pi) - sin (2 * x * pi)\<bar> \<le> 4 * \<bar>2\<bar> * (19 / 1000)"
    using dx by (rule sin_scaled_diff)
  have s3: "\<bar>sin (x' * pi) - sin (x * pi)\<bar> \<le> 4 * \<bar>1\<bar> * (19 / 1000)"
    using sin_scaled_diff [OF dx, of 1] by simp
  have s4: "\<bar>sin (x' / 3 * pi) - sin (x / 3 * pi)\<bar> \<le> 4 * \<bar>1 / 3\<bar> * (19 / 1000)"
    using sin_scaled_diff [OF dx, of "1 / 3"] by simp
  have s5: "\<bar>sin (x' / 12 * pi) - sin (x / 12 * pi)\<bar> \<le> 4 * \<bar>1 / 12\<bar> * (19 / 1000)"
    using sin_scaled_diff [OF dx, of "1 / 12"] by simp
  have s6: "\<bar>sin (x' / 30 * pi) - sin (x / 30 * pi)\<bar> \<le> 4 * \<bar>1 / 30\<bar> * (19 / 1000)"
    using sin_scaled_diff [OF dx, of "1 / 30"] by simp
  have "\<bar>(300 + x' + 2 * y' + xx' / 10 + xy' / 10 + r' / 10
        + (20 * a' + 20 * b') * 2 / 3 + (20 * c' + 40 * d') * 2 / 3 + (150 * e' + 300 * f') * 2 / 3)
      - (300 + x + 2 * y + xx / 10 + xy / 10 + r / 10
        + (20 * a + 20 * b) * 2 / 3 + (20 * c + 40 * d) * 2 / 3 + (150 * e + 300 * f) * 2 / 3)\<bar>
      \<le> 113 / 10"
    if "\<bar>x' - x\<bar> \<le> 19 / 1000" "\<bar>y' - y\<bar> \<le> 1 / 100"
      "\<bar>xx' - xx\<bar> \<le> 33 * (19 / 1000) + (19 / 1000) * 33"
      "\<bar>xy' - xy\<bar> \<le> 33 * (1 / 100) + (19 / 1000) * 35"
      "\<bar>r' - r\<bar> \<le> 14 / 100"
      "\<bar>a' - a\<bar> \<le> 4 * \<bar>6\<bar> * (19 / 1000)" "\<bar>b' - b\<bar> \<le> 4 * \<bar>2\<bar> * (19 / 1000)"
      "\<bar>c' - c\<bar> \<le> 4 * \<bar>1\<bar> * (19 / 1000)" "\<bar>d' - d\<bar> \<le> 4 * \<bar>1 / 3\<bar> * (19 / 1000)"
      "\<bar>e' - e\<bar> \<le> 4 * \<bar>1 / 12\<bar> * (19 / 1000)" "\<bar>f' - f\<bar> \<le> 4 * \<bar>1 / 30\<bar> * (19 / 1000)"
    for x x' y y' xx xx' xy xy' r r' a a' b b' c c' d d' e e' f f' :: real
    using that by argo
  from this [OF dx dy xx xy r s1 s2 s3 s4 s5 s6] show ?thesis
    by (simp only: transformLon_eq)
qed

lemma transformLat_lipschitz:
  assumes x: "\<bar>x\<bar> \<le> 33" and x': "\<bar>x'\<bar> \<le> 33" and y: "\<bar>y\<bar> \<le> 35" and y': "\<bar>y'\<bar> \<le> 35"
    and dx: "\<bar>x' - x\<bar> \<le> 19 / 1000" and dy: "\<bar>y' - y\<bar> \<le> 1 / 100"
  shows "\<bar>transformLat x' y' - transformLat x y\<bar> \<le> 10"
proof -
  have yy: "\<bar>y' * y' - y * y\<bar> \<le> 35 * (1 / 100) + (1 / 100) * 35"
    using dy dy y' y by (rule product_diff)
  have xy: "\<bar>x' * y' - x * y\<bar> \<le> 33 * (1 / 100) + (19 / 1000) * 35"
    using dx dy x' y by (rule product_diff)
  have r: "\<bar>sqrt \<bar>x'\<bar> - sqrt \<bar>x\<bar>\<bar> \<le> 14 / 100"
    using dx by (rule sqrt_abs_diff_small)
  have s1: "\<bar>sin (6 * x' * pi) - sin (6 * x * pi)\<bar> \<le> 4 * \<bar>6\<bar> * (19 / 1000)"
    using dx by (rule sin_scaled_diff)
  have s2: "\<bar>sin (2 * x' * pi) - sin (2 * x * pi)\<bar> \<le> 4 * \<bar>2\<bar> * (19 / 1000)"
    using dx by (rule sin_scaled_diff)
  have s3: "\<bar>sin (y' * pi) - sin (y * pi)\<bar> \<le> 4 * \<bar>1\<bar> * (1 / 100)"
    using sin_scaled_diff [OF dy, of 1] by simp
  have s4: "\<bar>sin (y' / 3 * pi) - sin (y / 3 * pi)\<bar> \<le> 4 * \<bar>1 / 3\<bar> * (1 / 100)"
    using sin_scaled_diff [OF dy, of "1 / 3"] by simp
  have s5: "\<bar>sin (y' / 12 * pi) - sin (y / 12 * pi)\<bar> \<le> 4 * \<bar>1 / 12\<bar> * (1 / 100)"
    using sin_scaled_diff [OF dy, of "1 / 12"] by simp
  have s6: "\<bar>sin (y' * pi / 30) - sin (y * pi / 30)\<bar> \<le> 4 * \<bar>1 / 30\<bar> * (1 / 100)"
    using sin_scaled_diff [OF dy, of "1 / 30"] by simp
  have "\<bar>(- 100 + 2 * x' + 3 * y' + yy' / 5 + xy' / 10 + r' / 5
        + (20 * a' + 20 * b') * 2 / 3 + (20 * c' + 40 * d') * 2 / 3 + (160 * e' + 320 * f') * 2 / 3)
      - (- 100 + 2 * x + 3 * y + yy / 5 + xy / 10 + r / 5
        + (20 * a + 20 * b) * 2 / 3 + (20 * c + 40 * d) * 2 / 3 + (160 * e + 320 * f) * 2 / 3)\<bar>
      \<le> 10"
    if "\<bar>x' - x\<bar> \<le> 19 / 1000" "\<bar>y' - y\<bar> \<le> 1 / 100"
      "\<bar>yy' - yy\<bar> \<le> 35 * (1 / 100) + (1 / 100) * 35"
      "\<bar>xy' - xy\<bar> \<le> 33 * (1 / 100) + (19 / 1000) * 35"
      "\<bar>r' - r\<bar> \<le> 14 / 100"
      "\<bar>a' - a\<bar> \<le> 4 * \<bar>6\<bar> * (19 / 1000)" "\<bar>b' - b\<bar> \<le> 4 * \<bar>2\<bar> * (19 / 1000)"
      "\<bar>c' - c\<bar> \<le> 4 * \<bar>1\<bar> * (1 / 100)" "\<bar>d' - d\<bar> \<le> 4 * \<bar>1 / 3\<bar> * (1 / 100)"
      "\<bar>e' - e\<bar> \<le> 4 * \<bar>1 / 12\<bar> * (1 / 100)" "\<bar>f' - f\<bar> \<le> 4 * \<bar>1 / 30\<bar> * (1 / 100)"
    for x x' y y' yy yy' xy xy' r r' a a' b b' c c' d d' e e' f f' :: real
    using that by argo
  from this [OF dx dy yy xy r s1 s2 s3 s4 s5 s6] show ?thesis
    by (simp only: transformLat_eq)
qed

lemma delta_factors:
  "delta lon lat = (transformLon (lon - 105) (lat - 35) * lon_factor lat,
                    transformLat (lon - 105) (lat - 35) * lat_factor lat)"
  by (simp add: delta_def Let_def lon_factor_def lat_factor_def magic_def)

lemma magic_range: "0 < magic lat" "magic lat \<le> 1" "996 / 1000 \<le> sqrt (magic lat)"
  "sqrt (magic lat) \<le> 1"
  unfolding magic_def
  by (rule magic_pos, rule magic_bounds(2), rule sqrt_magic_bounds(1), rule sqrt_magic_bounds(2))

lemma cos_lat_ge_half:
  assumes "0 \<le> lat" and "lat \<le> 60"
  shows "1 / 2 \<le> cos (lat / 180 * pi)"
proof -
  have "cos (pi / 3) \<le> cos (lat / 180 * pi)"
  proof (rule cos_monotone_0_pi_le)
    show "0 \<le> lat / 180 * pi" using assms(1) by simp
    have "lat / 180 * pi \<le> 60 / 180 * pi"
      using assms(2) by (intro mult_right_mono divide_right_mono) simp_all
    then show "lat / 180 * pi \<le> pi / 3" by simp
    show "pi / 3 \<le> pi" by simp
  qed
  then show ?thesis by (simp add: cos_60)
qed

lemma lon_factor_product:
  assumes "0 \<le> lat" and "lat \<le> 60"
  shows "lon_factor lat = (180 / (AXIS * pi)) * (sqrt (magic lat) * (1 / cos (lat / 180 * pi)))"
proof -
  have "0 < cos (lat / 180 * pi)" using cos_lat_ge_half [OF assms] by linarith
  moreover have "0 < sqrt (magic lat)" using magic_range(3) [of lat] by linarith
  moreover have "0 < AXIS" by (simp add: AXIS_def)
  ultimately show ?thesis by (simp add: lon_factor_def field_simps)
qed

lemma lat_factor_product:
  "lat_factor lat = (180 / (AXIS * (1 - OFFSET) * pi)) * (magic lat * sqrt (magic lat))"
proof -
  have "0 < sqrt (magic lat)" using magic_range(3) [of lat] by linarith
  moreover have "0 < magic lat" by (rule magic_range)
  moreover have "0 < AXIS * (1 - OFFSET)" by (simp add: AXIS_def OFFSET_def)
  ultimately show ?thesis by (simp add: lat_factor_def field_simps)
qed

lemma lon_scale: "0 < 180 / (AXIS * pi)" "180 / (AXIS * pi) \<le> 60 / AXIS"
proof -
  have a: "0 < AXIS" by (simp add: AXIS_def)
  then show "0 < 180 / (AXIS * pi)" by simp
  have "180 / (AXIS * pi) \<le> 180 / (AXIS * 3)"
    using a pi_ge_3 by (intro divide_left_mono mult_left_mono) simp_all
  then show "180 / (AXIS * pi) \<le> 60 / AXIS" by simp
qed

lemma lat_scale: "0 < 180 / (AXIS * (1 - OFFSET) * pi)"
  "180 / (AXIS * (1 - OFFSET) * pi) \<le> 60 / (AXIS * (1 - OFFSET))"
proof -
  have a: "0 < AXIS * (1 - OFFSET)" by (simp add: AXIS_def OFFSET_def)
  then show "0 < 180 / (AXIS * (1 - OFFSET) * pi)" by simp
  have "180 / (AXIS * (1 - OFFSET) * pi) \<le> 180 / (AXIS * (1 - OFFSET) * 3)"
    using a pi_ge_3 by (intro divide_left_mono mult_left_mono) simp_all
  then show "180 / (AXIS * (1 - OFFSET) * pi) \<le> 60 / (AXIS * (1 - OFFSET))" by simp
qed

lemma abs_le_of_range: "0 \<le> a \<Longrightarrow> a \<le> c \<Longrightarrow> \<bar>a :: real\<bar> \<le> c"
  by simp

lemma sqrt_magic_abs: "\<bar>sqrt (magic lat)\<bar> \<le> 1"
proof (rule abs_le_of_range)
  show "0 \<le> sqrt (magic lat)" using magic_range(3) [of lat] by linarith
  show "sqrt (magic lat) \<le> 1" by (rule magic_range)
qed

lemma magic_abs: "\<bar>magic lat\<bar> \<le> 1"
proof (rule abs_le_of_range)
  show "0 \<le> magic lat" using magic_range(1) [of lat] by (rule less_imp_le)
  show "magic lat \<le> 1" by (rule magic_range)
qed

lemma inv_cos_range:
  assumes "0 \<le> lat" and "lat \<le> 60"
  shows "0 \<le> 1 / cos (lat / 180 * pi)" "1 / cos (lat / 180 * pi) \<le> 2"
proof -
  define c where "c = cos (lat / 180 * pi)"
  have c: "1 / 2 \<le> c" unfolding c_def using assms by (rule cos_lat_ge_half)
  then have "0 < c" by linarith
  then have "0 \<le> 1 / c" by simp
  then show "0 \<le> 1 / cos (lat / 180 * pi)" by (simp only: c_def)
  have "1 / c \<le> 1 / (1 / 2)"
    using c by (intro divide_left_mono) simp_all
  then have "1 / c \<le> 2" by simp
  then show "1 / cos (lat / 180 * pi) \<le> 2" by (simp only: c_def)
qed

lemma inv_cos_abs:
  assumes "0 \<le> lat" and "lat \<le> 60"
  shows "\<bar>1 / cos (lat / 180 * pi)\<bar> \<le> 2"
  using inv_cos_range [OF assms] by (rule abs_le_of_range)

lemma lon_factor_bound:
  assumes "0 \<le> lat" and "lat \<le> 60"
  shows "\<bar>lon_factor lat\<bar> \<le> 120 / AXIS"
proof -
  have k: "\<bar>180 / (AXIS * pi)\<bar> \<le> 60 / AXIS"
    using lon_scale(1) [THEN less_imp_le] lon_scale(2) by (rule abs_le_of_range)
  have m: "\<bar>sqrt (magic lat) * (1 / cos (lat / 180 * pi))\<bar> \<le> 1 * 2"
    using sqrt_magic_abs inv_cos_abs [OF assms] by (rule abs_mult_le)
  have "\<bar>(180 / (AXIS * pi)) * (sqrt (magic lat) * (1 / cos (lat / 180 * pi)))\<bar>
      \<le> (60 / AXIS) * (1 * 2)"
    using k m by (rule abs_mult_le)
  then have "\<bar>lon_factor lat\<bar> \<le> (60 / AXIS) * (1 * 2)"
    by (simp only: lon_factor_product [OF assms])
  then show ?thesis by simp
qed

lemma lat_factor_bound: "\<bar>lat_factor lat\<bar> \<le> 60 / (AXIS * (1 - OFFSET))"
proof -
  have k: "\<bar>180 / (AXIS * (1 - OFFSET) * pi)\<bar> \<le> 60 / (AXIS * (1 - OFFSET))"
    using lat_scale(1) [THEN less_imp_le] lat_scale(2) by (rule abs_le_of_range)
  have m: "\<bar>magic lat * sqrt (magic lat)\<bar> \<le> 1 * 1"
    using magic_abs sqrt_magic_abs by (rule abs_mult_le)
  have "\<bar>(180 / (AXIS * (1 - OFFSET) * pi)) * (magic lat * sqrt (magic lat))\<bar>
      \<le> (60 / (AXIS * (1 - OFFSET))) * (1 * 1)"
    using k m by (rule abs_mult_le)
  then have "\<bar>lat_factor lat\<bar> \<le> (60 / (AXIS * (1 - OFFSET))) * (1 * 1)"
    by (simp only: lat_factor_product)
  then show ?thesis by simp
qed

lemma radians_diff:
  assumes "\<bar>lat' - lat\<bar> \<le> 1 / 100"
  shows "\<bar>lat' / 180 * pi - lat / 180 * pi\<bar> \<le> 1 / 4500"
proof -
  have "lat' / 180 * pi - lat / 180 * pi = (lat' - lat) * (pi / 180)"
    by (simp add: algebra_simps)
  then have "\<bar>lat' / 180 * pi - lat / 180 * pi\<bar> = \<bar>(lat' - lat) * (pi / 180)\<bar>"
    by (rule arg_cong)
  also have "\<dots> \<le> (1 / 100) * (4 / 180)"
  proof (rule abs_mult_le)
    show "\<bar>lat' - lat\<bar> \<le> 1 / 100" by (rule assms)
    show "\<bar>pi / 180\<bar> \<le> 4 / 180" using pi_less_4 by simp
  qed
  finally show ?thesis by simp
qed

lemma magic_diff:
  assumes "\<bar>lat' - lat\<bar> \<le> 1 / 100"
  shows "\<bar>magic lat' - magic lat\<bar> \<le> 3 / 1000000"
proof -
  define s where "s = sin (lat / 180 * pi)"
  define s' where "s' = sin (lat' / 180 * pi)"
  have d: "\<bar>s' - s\<bar> \<le> 1 / 4500"
    unfolding s_def s'_def
    using sin_lipschitz [of "lat' / 180 * pi" "lat / 180 * pi"] radians_diff [OF assms]
    by (rule order_trans)
  have b: "\<bar>s'\<bar> \<le> 1" "\<bar>s\<bar> \<le> 1" by (simp_all add: s_def s'_def)
  have p: "\<bar>s' * s' - s * s\<bar> \<le> 1 * (1 / 4500) + (1 / 4500) * 1"
    using d d b by (rule product_diff)
  have o: "\<bar>- OFFSET\<bar> \<le> 67 / 10000" by (simp add: OFFSET_def)
  have "\<bar>(- OFFSET) * (s' * s' - s * s)\<bar> \<le> (67 / 10000) * (1 * (1 / 4500) + (1 / 4500) * 1)"
    using o p by (rule abs_mult_le)
  moreover have "magic lat' - magic lat = (- OFFSET) * (s' * s' - s * s)"
    by (simp add: magic_def s_def s'_def algebra_simps)
  ultimately have "\<bar>magic lat' - magic lat\<bar>
      \<le> (67 / 10000) * (1 * (1 / 4500) + (1 / 4500) * 1)"
    by (simp only:)
  then show ?thesis by simp
qed

lemma sqrt_magic_diff:
  "\<bar>sqrt (magic lat') - sqrt (magic lat)\<bar> \<le> \<bar>magic lat' - magic lat\<bar>"
proof -
  define a where "a = sqrt (magic lat')"
  define b where "b = sqrt (magic lat)"
  have ab: "996 / 1000 \<le> a" "996 / 1000 \<le> b"
    unfolding a_def b_def by (rule magic_range)+
  have "magic lat' = a * a" "magic lat = b * b"
    using magic_range(1) [of lat'] magic_range(1) [of lat] by (simp_all add: a_def b_def)
  then have "magic lat' - magic lat = (a - b) * (a + b)" by (simp add: algebra_simps)
  then have e: "\<bar>magic lat' - magic lat\<bar> = \<bar>a - b\<bar> * \<bar>a + b\<bar>" by (simp add: abs_mult)
  have "1 \<le> \<bar>a + b\<bar>" using ab by linarith
  then have "\<bar>a - b\<bar> * 1 \<le> \<bar>a - b\<bar> * \<bar>a + b\<bar>"
    by (intro mult_left_mono) simp_all
  with e have "\<bar>a - b\<bar> \<le> \<bar>magic lat' - magic lat\<bar>" by simp
  then show ?thesis by (simp only: a_def b_def)
qed

lemma inv_cos_diff:
  assumes "0 \<le> lat" "lat \<le> 60" "0 \<le> lat'" "lat' \<le> 60" and d: "\<bar>lat' - lat\<bar> \<le> 1 / 100"
  shows "\<bar>1 / cos (lat' / 180 * pi) - 1 / cos (lat / 180 * pi)\<bar> \<le> 4 / 4500"
proof -
  define c where "c = cos (lat / 180 * pi)"
  define c' where "c' = cos (lat' / 180 * pi)"
  have c: "1 / 2 \<le> c" unfolding c_def using assms(1,2) by (rule cos_lat_ge_half)
  have c': "1 / 2 \<le> c'" unfolding c'_def using assms(3,4) by (rule cos_lat_ge_half)
  have "\<bar>c' - c\<bar> \<le> 1 / 4500"
    unfolding c_def c'_def
    using cos_lipschitz [of "lat' / 180 * pi" "lat / 180 * pi"] radians_diff [OF d]
    by (rule order_trans)
  then have cd: "\<bar>c - c'\<bar> \<le> 1 / 4500" by (simp add: abs_minus_commute)
  have p: "(1 / 2) * (1 / 2) \<le> c * c'" using c c' by (intro mult_mono) simp_all
  then have pp: "0 < c * c'" by linarith
  have c0: "0 < c" "0 < c'" using c c' by linarith+
  then have "1 / c' - 1 / c = (c - c') / (c * c')"
    by (simp add: field_simps)
  then have "\<bar>1 / c' - 1 / c\<bar> = \<bar>c - c'\<bar> / \<bar>c * c'\<bar>"
    by (simp only: abs_divide)
  also have "\<bar>c * c'\<bar> = c * c'" using pp by (intro abs_of_pos)
  finally have "\<bar>1 / c' - 1 / c\<bar> = \<bar>c - c'\<bar> / (c * c')" .
  also have "\<dots> \<le> (1 / 4500) / ((1 / 2) * (1 / 2))"
    using cd p by (intro frac_le) simp_all
  finally have "\<bar>1 / c' - 1 / c\<bar> \<le> 4 / 4500" by simp
  then show ?thesis by (simp only: c_def c'_def)
qed

lemma lon_factor_diff:
  assumes l: "0 \<le> lat" "lat \<le> 60" and l': "0 \<le> lat'" "lat' \<le> 60"
    and d: "\<bar>lat' - lat\<bar> \<le> 1 / 100"
  shows "\<bar>lon_factor lat' - lon_factor lat\<bar> \<le> (60 / AXIS) * (9 / 10000)"
proof -
  define a where "a = sqrt (magic lat)"
  define a' where "a' = sqrt (magic lat')"
  define b where "b = 1 / cos (lat / 180 * pi)"
  define b' where "b' = 1 / cos (lat' / 180 * pi)"
  define k where "k = 180 / (AXIS * pi)"
  have da: "\<bar>a' - a\<bar> \<le> 3 / 1000000"
    unfolding a_def a'_def using sqrt_magic_diff magic_diff [OF d] by (rule order_trans)
  have db: "\<bar>b' - b\<bar> \<le> 4 / 4500"
    unfolding b_def b'_def using l l' d by (rule inv_cos_diff)
  have ca: "\<bar>a'\<bar> \<le> 1" unfolding a'_def by (rule sqrt_magic_abs)
  have cb: "\<bar>b\<bar> \<le> 2" unfolding b_def using l by (rule inv_cos_abs)
  have "\<bar>a' * b' - a * b\<bar> \<le> 1 * (4 / 4500) + (3 / 1000000) * 2"
    using da db ca cb by (rule product_diff)
  then have p: "\<bar>a' * b' - a * b\<bar> \<le> 9 / 10000" by simp
  have kk: "\<bar>k\<bar> \<le> 60 / AXIS"
    unfolding k_def using lon_scale(1) [THEN less_imp_le] lon_scale(2) by (rule abs_le_of_range)
  have "\<bar>k * (a' * b' - a * b)\<bar> \<le> (60 / AXIS) * (9 / 10000)"
    using kk p by (rule abs_mult_le)
  moreover have "lon_factor lat' - lon_factor lat = k * (a' * b' - a * b)"
    by (simp only: lon_factor_product [OF l] lon_factor_product [OF l'] a_def a'_def b_def b'_def
        k_def right_diff_distrib)
  ultimately show ?thesis by (simp only:)
qed

lemma lat_factor_diff:
  assumes d: "\<bar>lat' - lat\<bar> \<le> 1 / 100"
  shows "\<bar>lat_factor lat' - lat_factor lat\<bar> \<le> (60 / (AXIS * (1 - OFFSET))) * (6 / 1000000)"
proof -
  define a where "a = magic lat"
  define a' where "a' = magic lat'"
  define b where "b = sqrt (magic lat)"
  define b' where "b' = sqrt (magic lat')"
  define k where "k = 180 / (AXIS * (1 - OFFSET) * pi)"
  have da: "\<bar>a' - a\<bar> \<le> 3 / 1000000"
    unfolding a_def a'_def using d by (rule magic_diff)
  have db: "\<bar>b' - b\<bar> \<le> 3 / 1000000"
    unfolding b_def b'_def using sqrt_magic_diff magic_diff [OF d] by (rule order_trans)
  have ca: "\<bar>a'\<bar> \<le> 1" unfolding a'_def by (rule magic_abs)
  have cb: "\<bar>b\<bar> \<le> 1" unfolding b_def by (rule sqrt_magic_abs)
  have "\<bar>a' * b' - a * b\<bar> \<le> 1 * (3 / 1000000) + (3 / 1000000) * 1"
    using da db ca cb by (rule product_diff)
  then have p: "\<bar>a' * b' - a * b\<bar> \<le> 6 / 1000000" by simp
  have kk: "\<bar>k\<bar> \<le> 60 / (AXIS * (1 - OFFSET))"
    unfolding k_def using lat_scale(1) [THEN less_imp_le] lat_scale(2) by (rule abs_le_of_range)
  have "\<bar>k * (a' * b' - a * b)\<bar> \<le> (60 / (AXIS * (1 - OFFSET))) * (6 / 1000000)"
    using kk p by (rule abs_mult_le)
  moreover have "lat_factor lat' - lat_factor lat = k * (a' * b' - a * b)"
    by (simp only: lat_factor_product a_def a'_def b_def b'_def k_def right_diff_distrib)
  ultimately show ?thesis by (simp only:)
qed

text \<open>The region in coordinates relative to the anchor point.\<close>

lemma inside_region:
  assumes "\<not> outOfChina (Num lon) (Num lat)"
  shows "\<bar>lon - 105\<bar> \<le> 33" "\<bar>lat - 35\<bar> \<le> 35" "0 \<le> lat" "lat \<le> 60"
  using assms by (auto simp: outOfChina_Num)

lemma delta_bound:
  assumes i: "\<not> outOfChina (Num lon) (Num lat)"
  shows "\<bar>fst (delta lon lat)\<bar> \<le> 19 / 1000" "\<bar>snd (delta lon lat)\<bar> \<le> 1 / 100"
proof -
  note r = inside_region [OF i]
  have "\<bar>transformLon (lon - 105) (lat - 35) * lon_factor lat\<bar> \<le> 995 * (120 / AXIS)"
    using transformLon_bound [OF r(1,2)] lon_factor_bound [OF r(3,4)] by (rule abs_mult_le)
  moreover have "995 * (120 / AXIS) \<le> 19 / 1000" by (simp add: AXIS_def)
  ultimately show "\<bar>fst (delta lon lat)\<bar> \<le> 19 / 1000"
    by (simp only: delta_factors fst_conv)
  have "\<bar>transformLat (lon - 105) (lat - 35) * lat_factor lat\<bar>
      \<le> 1020 * (60 / (AXIS * (1 - OFFSET)))"
    using transformLat_bound [OF r(1,2)] lat_factor_bound by (rule abs_mult_le)
  moreover have "1020 * (60 / (AXIS * (1 - OFFSET))) \<le> 1 / 100"
    by (simp add: AXIS_def OFFSET_def)
  ultimately show "\<bar>snd (delta lon lat)\<bar> \<le> 1 / 100"
    by (simp only: delta_factors snd_conv)
qed

lemma delta_diff:
  assumes i: "\<not> outOfChina (Num lon) (Num lat)" and i': "\<not> outOfChina (Num lon') (Num lat')"
    and dx: "\<bar>lon' - lon\<bar> \<le> 19 / 1000" and dy: "\<bar>lat' - lat\<bar> \<le> 1 / 100"
  shows "\<bar>fst (delta lon' lat') - fst (delta lon lat)\<bar> \<le> 3 / 10000"
    "\<bar>snd (delta lon' lat') - snd (delta lon lat)\<bar> \<le> 3 / 10000"
proof -
  note r = inside_region [OF i] and r' = inside_region [OF i']
  have ex: "\<bar>(lon' - 105) - (lon - 105)\<bar> \<le> 19 / 1000" using dx by simp
  have ey: "\<bar>(lat' - 35) - (lat - 35)\<bar> \<le> 1 / 100" using dy by simp
  have "\<bar>transformLon (lon' - 105) (lat' - 35) * lon_factor lat'
      - transformLon (lon - 105) (lat - 35) * lon_factor lat\<bar>
      \<le> 995 * ((60 / AXIS) * (9 / 10000)) + (113 / 10) * (120 / AXIS)"
  proof (rule product_diff)
    show "\<bar>transformLon (lon' - 105) (lat' - 35) - transformLon (lon - 105) (lat - 35)\<bar> \<le> 113 / 10"
      using r(1) r'(1) r(2) r'(2) ex ey by (rule transformLon_lipschitz)
    show "\<bar>lon_factor lat' - lon_factor lat\<bar> \<le> (60 / AXIS) * (9 / 10000)"
      using r(3,4) r'(3,4) dy by (rule lon_factor_diff)
    show "\<bar>transformLon (lon' - 105) (lat' - 35)\<bar> \<le> 995"
      using r'(1,2) by (rule transformLon_bound)
    show "\<bar>lon_factor lat\<bar> \<le> 120 / AXIS" using r(3,4) by (rule lon_factor_bound)
  qed
  moreover have "995 * ((60 / AXIS) * (9 / 10000)) + (113 / 10) * (120 / AXIS) \<le> 3 / 10000"
    by (simp add: AXIS_def)
  ultimately show "\<bar>fst (delta lon' lat') - fst (delta lon lat)\<bar> \<le> 3 / 10000"
    by (simp only: delta_factors fst_conv)
  have "\<bar>transformLat (lon' - 105) (lat' - 35) * lat_factor lat'
      - transformLat (lon - 105) (lat - 35) * lat_factor lat\<bar>
      \<le> 1020 * ((60 / (AXIS * (1 - OFFSET))) * (6 / 1000000))
        + 10 * (60 / (AXIS * (1 - OFFSET)))"
  proof (rule product_diff)
    show "\<bar>transformLat (lon' - 105) (lat' - 35) - transformLat (lon - 105) (lat - 35)\<bar> \<le> 10"
      using r(1) r'(1) r(2) r'(2) ex ey by (rule transformLat_lipschitz)
    show "\<bar>lat_factor lat' - lat_factor lat\<bar> \<le> (60 / (AXIS * (1 - OFFSET))) * (6 / 1000000)"
      using dy by (rule lat_factor_diff)
    show "\<bar>transformLat (lon' - 105) (lat' - 35)\<bar> \<le> 1020"
      using r'(1,2) by (rule transformLat_bound)
    show "\<bar>lat_factor lat\<bar> \<le> 60 / (AXIS * (1 - OFFSET))" by (rule lat_factor_bound)
  qed
  moreover have "1020 * ((60 / (AXIS * (1 - OFFSET))) * (6 / 1000000))
        + 10 * (60 / (AXIS * (1 - OFFSET))) \<le> 3 / 10000"
    by (simp add: AXIS_def OFFSET_def)
  ultimately show "\<bar>snd (delta lon' lat') - snd (delta lon lat)\<bar> \<le> 3 / 10000"
    by (simp only: delta_factors snd_conv)
qed

lemma toWGS84_one_point_inside:
  assumes "\<not> outOfChina (Num lon) (Num lat)"
  shows "toWGS84 [Num lon, Num lat] Omitted None
    = Some [Num (lon - fst (delta lon lat)), Num (lat - snd (delta lon lat))]"
  by (simp only: toWGS84_def forEachPoint_one_point toWGS84_point_inside [OF assms]
      fst_conv snd_conv)

text \<open>
  C7 (as the code has it). For a point of the region whose image under \<open>toWGS84\<close> is
  again in the region, \<open>fromWGS84\<close> of the image is the original point within 0.0003
  degrees in longitude and in latitude. (The numbers are real numbers here; the code
  computes in doubles.)
\<close>

theorem round_trip_within_epsilon:
  assumes "\<not> outOfChina (Num lon) (Num lat)"
    and "toWGS84 [Num lon, Num lat] Omitted None = Some [a, b]"
    and "\<not> outOfChina a b"
  shows "\<exists>lon' lat'. round_trip [Num lon, Num lat] = Some [Num lon', Num lat']
    \<and> \<bar>lon' - lon\<bar> \<le> 3 / 10000 \<and> \<bar>lat' - lat\<bar> \<le> 3 / 10000"
proof -
  define qlon where "qlon = lon - fst (delta lon lat)"
  define qlat where "qlat = lat - snd (delta lon lat)"
  have t: "toWGS84_point (Num lon) (Num lat) = (Num qlon, Num qlat)"
    unfolding qlon_def qlat_def using assms(1) by (rule toWGS84_point_inside)
  have "toWGS84 [Num lon, Num lat] Omitted None = Some [Num qlon, Num qlat]"
    unfolding qlon_def qlat_def using assms(1) by (rule toWGS84_one_point_inside)
  with assms(2) have ab: "a = Num qlon" "b = Num qlat" by simp_all
  with assms(3) have q: "\<not> outOfChina (Num qlon) (Num qlat)" by simp
  have r: "round_trip [Num lon, Num lat]
      = Some [Num (qlon + fst (delta qlon qlat)), Num (qlat + snd (delta qlon qlat))]"
    by (simp only: round_trip_point t fst_conv snd_conv fromWGS84_point_inside [OF q])
  have dx: "\<bar>qlon - lon\<bar> \<le> 19 / 1000"
    using delta_bound(1) [OF assms(1)] by (simp add: qlon_def)
  have dy: "\<bar>qlat - lat\<bar> \<le> 1 / 100"
    using delta_bound(2) [OF assms(1)] by (simp add: qlat_def)
  note d = delta_diff [OF assms(1) q dx dy]
  have "qlon + fst (delta qlon qlat) - lon = fst (delta qlon qlat) - fst (delta lon lat)"
    by (simp add: qlon_def)
  with d(1) have ex: "\<bar>qlon + fst (delta qlon qlat) - lon\<bar> \<le> 3 / 10000"
    by (simp only:)
  have "qlat + snd (delta qlon qlat) - lat = snd (delta qlon qlat) - snd (delta lon lat)"
    by (simp add: qlat_def)
  with d(2) have ey: "\<bar>qlat + snd (delta qlon qlat) - lat\<bar> \<le> 3 / 10000"
    by (simp only:)
  from r ex ey show ?thesis by blast
qed

theorem round_trip_within_epsilon_witness:
  "\<not> outOfChina (Num 105) (Num 35)
   \<and> toWGS84 [Num 105, Num 35] Omitted None
       = Some [Num (105 - fst (delta 105 35)), Num (35 - snd (delta 105 35))]
   \<and> \<not> outOfChina (Num (105 - fst (delta 105 35))) (Num (35 - snd (delta 105 35)))
   \<and> (\<exists>lon' lat'. round_trip [Num 105, Num 35] = Some [Num lon', Num lat']
        \<and> \<bar>lon' - 105\<bar> \<le> 3 / 10000 \<and> \<bar>lat' - 35\<bar> \<le> 3 / 10000)"
proof -
  have i: "\<not> outOfChina (Num 105) (Num 35)" by (simp add: outOfChina_Num)
  have t: "toWGS84 [Num 105, Num 35] Omitted None
       = Some [Num (105 - fst (delta 105 35)), Num (35 - snd (delta 105 35))]"
    using i by (rule toWGS84_one_point_inside)
  have "\<bar>fst (delta 105 35)\<bar> \<le> 19 / 1000" "\<bar>snd (delta 105 35)\<bar> \<le> 1 / 100"
    using i by (rule delta_bound)+
  then have q: "\<not> outOfChina (Num (105 - fst (delta 105 35))) (Num (35 - snd (delta 105 35)))"
    by (auto simp: outOfChina_Num)
  from round_trip_within_epsilon [OF i t q] i t q show ?thesis by blast
qed

end
